theory Spec2Isabelle
  imports Complex_Main "HOL-Library.Word"
begin

unbundle bit_operations_syntax

section \<open>Frequency-response measurement: the audio callback of measure.cc\<close>

text \<open>
  The model follows \<^verbatim>\<open>src/frequency-response/measure.cc\<close>. The C++ \<^verbatim>\<open>unsigned\<close>
  fields are 32-bit words, so that \<^verbatim>\<open>~0u\<close> and \<^verbatim>\<open>++ctx.current_bin\<close> wrap as in the
  source. Samples, the oscillator phase and the window are \<^verbatim>\<open>float\<close>/\<^verbatim>\<open>double\<close> in the
  source; here they are real numbers, and \<^verbatim>\<open>std::complex<float>\<close> is \<^typ>\<open>complex\<close>, so
  every statement below is about the arithmetic the source text denotes, before rounding.
  One conversion is modelled with its rounding, because an integer is computed from it:
  the sample rate stored in a \<^verbatim>\<open>float\<close> on line 135.
\<close>

subsection \<open>Constants (lines 15-23)\<close>

definition fft_size :: "32 word" where
  "fft_size = 2048"

definition fft_nbins :: "32 word" where
  "fft_nbins = fft_size div 2 + 1"

text \<open>The literal \<^verbatim>\<open>1e-2f\<close> denotes the binary32 number nearest to one hundredth.\<close>

definition silence_threshold :: real where
  "silence_threshold = 10737418 / 2 ^ 30"

text \<open>\<^verbatim>\<open>~0u\<close>, the value of \<^verbatim>\<open>current_bin\<close> while no bin has been selected.\<close>

definition no_bin :: "32 word" where
  "no_bin = NOT 0"

record Globals =
  measure_started :: int
  measure_finished :: int

subsection \<open>The context (lines 26-38)\<close>

text \<open>
  \<^verbatim>\<open>fft_plan\<close> is an opaque handle tying \<^verbatim>\<open>fft_in\<close> to \<^verbatim>\<open>fft_out\<close>; running it is the
  function \<open>fftwf_execute\<close> below, so the record has no field for it.
\<close>

record Measure_Context =
  fft_in :: "real list"
  fft_out :: "complex list"
  current_bin :: "32 word"
  fft_in_fill :: "32 word"
  oscillator_phase :: real
  response :: "complex list"
  silence_frames_count :: "32 word"
  silence_frames_needed :: "32 word"

subsection \<open>The loops of \<^verbatim>\<open>process\<close>\<close>

text \<open>Lines 51-53: the run of quiet samples, reset by every loud one.\<close>

fun count_silence :: "32 word \<Rightarrow> real list \<Rightarrow> 32 word" where
  "count_silence c [] = c"
| "count_silence c (x # xs) =
     count_silence (if \<bar>x\<bar> < silence_threshold then c + 1 else 0) xs"

text \<open>Lines 63 and 65: the factor applied to sample \<open>i\<close>.\<close>

definition window :: "nat \<Rightarrow> real" where
  "window i =
     (let k = real i / real (unat (fft_size - 1))
      in 0.42 - 0.5 * cos (2 * pi * k) + 0.08 * cos (4 * pi * k))"

text \<open>Lines 62-66: the loop multiplies the buffer in place, index by index.\<close>

definition apply_window :: "real list \<Rightarrow> real list" where
  "apply_window buf =
     fold (\<lambda>i b. b[i := b ! i * window i]) [0..<unat fft_size] buf"

text \<open>
  Line 67. The plan is made by \<^verbatim>\<open>fftwf_plan_dft_r2c_1d(fft_size, fft_in, fft_out, ...)\<close>
  (line 100); FFTW documents its result as the first \<^verbatim>\<open>fft_size / 2 + 1\<close> coefficients of
  the unnormalised forward discrete Fourier transform of the real input.
\<close>

definition fftwf_execute :: "real list \<Rightarrow> complex list" where
  "fftwf_execute xs =
     map (\<lambda>k. \<Sum>j<unat fft_size.
                 of_real (xs ! j) * cis (- (2 * pi * real j * real k / real (unat fft_size))))
         [0..<unat fft_nbins]"

text \<open>
  Lines 61-69: window, transform, and the store into the response table. The source
  indexes both arrays with \<^verbatim>\<open>current_bin\<close> unchecked; every context the program reaches has
  a bin below \<^verbatim>\<open>fft_nbins\<close> here (\<open>context_ok\<close> and \<open>reachable_ok\<close> below), so the index is in
  range wherever this block runs.
\<close>

definition transform :: "Measure_Context \<Rightarrow> Measure_Context" where
  "transform ctx =
     (if current_bin ctx \<noteq> no_bin \<and> fft_in_fill ctx = fft_size then
        (let win = apply_window (fft_in ctx);
             out = fftwf_execute win
         in ctx\<lparr>fft_in := win, fft_out := out,
                response := (response ctx)[unat (current_bin ctx) := out ! unat (current_bin ctx)]\<rparr>)
      else ctx)"

text \<open>The cast \<^verbatim>\<open>(int)\<close> of line 84 truncates towards zero.\<close>

definition c_int :: "real \<Rightarrow> int" where
  "c_int x = (if 0 \<le> x then \<lfloor>x\<rfloor> else \<lceil>x\<rceil>)"

text \<open>Lines 83-84: one step of the phase accumulator.\<close>

definition advance_phase :: "real \<Rightarrow> real \<Rightarrow> real" where
  "advance_phase oscillator_freq p =
     (let q = p + oscillator_freq in q - of_int (c_int q))"

text \<open>
  Lines 81-85. The loop runs over the output buffer, which line 46 has zeroed, and stops
  as soon as the capture buffer is full; the samples it does not reach stay as they are.
\<close>

fun synthesize :: "real \<Rightarrow> Measure_Context \<Rightarrow> real list \<Rightarrow> Measure_Context \<times> real list" where
  "synthesize oscillator_freq ctx [] = (ctx, [])"
| "synthesize oscillator_freq ctx (y # ys) =
     (if fft_in_fill ctx < fft_size then
        (let out = sin (oscillator_phase ctx);
             ctx' = ctx\<lparr>oscillator_phase :=
                          advance_phase oscillator_freq (oscillator_phase ctx)\<rparr>;
             (ctx'', outs) = synthesize oscillator_freq ctx' ys
         in (ctx'', out # outs))
      else (ctx, y # ys))"

text \<open>Lines 89-90: append input samples while the capture buffer has room.\<close>

fun record_input :: "Measure_Context \<Rightarrow> real list \<Rightarrow> Measure_Context" where
  "record_input ctx [] = ctx"
| "record_input ctx (x # xs) =
     (if fft_in_fill ctx < fft_size then
        record_input
          (ctx\<lparr>fft_in := (fft_in ctx)[unat (fft_in_fill ctx) := x],
               fft_in_fill := fft_in_fill ctx + 1\<rparr>) xs
      else ctx)"

subsection \<open>The callback (lines 40-94)\<close>

text \<open>
  \<open>process g ctx input\<close> is one invocation with \<open>nframes = length input\<close>: it returns the
  globals and the context after the call, and the output buffer.
\<close>

definition process ::
  "Globals \<Rightarrow> Measure_Context \<Rightarrow> real list \<Rightarrow> (Globals \<times> Measure_Context) \<times> real list" where
  "process g ctx input =
     (let output = replicate (length input) 0 in
      if measure_started g = 0 then ((g, ctx), output)
      else
        let ctx1 = ctx\<lparr>silence_frames_count :=
                         count_silence (silence_frames_count ctx) input\<rparr> in
        if current_bin ctx1 = fft_nbins then ((g\<lparr>measure_finished := 1\<rparr>, ctx1), output)
        else
          let ctx2 = transform ctx1;
              change_bin = (current_bin ctx2 = no_bin \<or> fft_in_fill ctx2 = fft_size) in
          if change_bin \<and> silence_frames_count ctx2 < silence_frames_needed ctx2
          then ((g, ctx2), output)
          else
            let ctx3 = (if change_bin
                        then ctx2\<lparr>current_bin := current_bin ctx2 + 1,
                                  fft_in_fill := 0, oscillator_phase := 0\<rparr>
                        else ctx2);
                oscillator_freq = real (unat (current_bin ctx3)) / real (unat fft_size);
                (ctx4, output') = synthesize oscillator_freq ctx3 output;
                ctx5 = (if \<not> change_bin then record_input ctx4 input else ctx4)
            in ((g, ctx5), output'))"

text \<open>A sequence of invocations, one per buffer; the output buffers are returned in order.\<close>

fun run ::
  "Globals \<Rightarrow> Measure_Context \<Rightarrow> real list list \<Rightarrow> (Globals \<times> Measure_Context) \<times> real list list" where
  "run g ctx [] = ((g, ctx), [])"
| "run g ctx (b # bs) =
     (let r = process g ctx b;
          rs = run (fst (fst r)) (snd (fst r)) bs
      in (fst rs, snd r # snd rs))"

text \<open>The context after a sequence of invocations.\<close>

definition ctx_after :: "Globals \<Rightarrow> Measure_Context \<Rightarrow> real list list \<Rightarrow> Measure_Context" where
  "ctx_after g ctx bs = snd (fst (run g ctx bs))"

subsection \<open>Setup and report in \<^verbatim>\<open>main\<close>\<close>

text \<open>Lines 26-38: the default member initialisers; a null pointer is an empty array.\<close>

definition Measure_Context_default :: Measure_Context where
  "Measure_Context_default =
     \<lparr>fft_in = [], fft_out = [], current_bin = no_bin, fft_in_fill = 0,
      oscillator_phase = 0, response = [], silence_frames_count = 0,
      silence_frames_needed = 0\<rparr>"

text \<open>
  Lines 96-102. The two FFTW arrays are allocated without being initialised: their
  contents are the parameters \<open>mem_in\<close> and \<open>mem_out\<close>. \<^verbatim>\<open>new cfloat[fft_nbins]\<close> runs the
  default constructor of \<^verbatim>\<open>std::complex<float>\<close>, which is zero.
\<close>

definition setup_fft :: "(nat \<Rightarrow> real) \<Rightarrow> (nat \<Rightarrow> complex) \<Rightarrow> Measure_Context \<Rightarrow> Measure_Context" where
  "setup_fft mem_in mem_out ctx =
     ctx\<lparr>fft_in := map mem_in [0..<unat fft_size],
         fft_out := map mem_out [0..<unat fft_nbins],
         response := replicate (unat fft_nbins) 0\<rparr>"

text \<open>
  Line 135, \<^verbatim>\<open>float sample_rate = jack_get_sample_rate(client)\<close>: the conversion of a 32-bit
  unsigned integer to binary32 keeps 24 significant bits and rounds to nearest, ties to
  even. \<open>excess_bits n\<close> is the number of low bits of \<open>n\<close> that do not fit, and
  \<open>narrow_to_float n\<close> is the value of the \<^verbatim>\<open>float\<close>, an integer again.
\<close>

function excess_bits :: "nat \<Rightarrow> nat" where
  "excess_bits n = (if n < 2 ^ 24 then 0 else Suc (excess_bits (n div 2)))"
  by pat_completeness auto
termination
  by (relation "measure id") auto

declare excess_bits.simps [simp del]

definition narrow_to_float :: "nat \<Rightarrow> nat" where
  "narrow_to_float n =
     (let e = excess_bits n; q = n div 2 ^ e; r = n mod 2 ^ e
      in if 2 * r < 2 ^ e \<or> (2 * r = 2 ^ e \<and> even q) then q * 2 ^ e else (q + 1) * 2 ^ e)"

text \<open>
  Lines 126-136: the context when the callback is activated. \<open>jack_rate\<close> is the
  \<^verbatim>\<open>jack_nframes_t\<close> (32 bits, unsigned) that \<^verbatim>\<open>jack_get_sample_rate\<close> returns, and
  \<open>sample_rate\<close> the \<^verbatim>\<open>float\<close> of line 135. The product with \<^verbatim>\<open>10e-3\<close> and its ceiling are
  taken in real arithmetic.
\<close>

definition main_setup :: "(nat \<Rightarrow> real) \<Rightarrow> (nat \<Rightarrow> complex) \<Rightarrow> 32 word \<Rightarrow> Measure_Context" where
  "main_setup mem_in mem_out jack_rate =
     (let sample_rate = real (narrow_to_float (unat jack_rate))
      in (setup_fft mem_in mem_out Measure_Context_default)
           \<lparr>silence_frames_needed := word_of_int \<lceil>10 / 1000 * sample_rate\<rceil>\<rparr>)"

text \<open>
  Lines 166-180: the loop appends one line per bin to the file. A line is kept as the
  three numbers that \<^verbatim>\<open>fprintf\<close> formats.
\<close>

definition write_response :: "32 word \<Rightarrow> complex list \<Rightarrow> (real \<times> real \<times> real) list" where
  "write_response sample_rate resp =
     (let fs = real (unat sample_rate) in
      fold (\<lambda>i fh.
              fh @ [(real i * (fs / real (unat fft_size)),
                     cmod (resp ! i) / real (unat fft_size),
                     Arg (resp ! i))])
           [0..<unat fft_nbins] [])"

subsection \<open>The phase accumulator as the specification words it\<close>

text \<open>\<open>phase += bin/N\<close> followed by \<open>phase -= floor(phase)\<close>.\<close>

definition normalized_step :: "real \<Rightarrow> real \<Rightarrow> real" where
  "normalized_step oscillator_freq p =
     (let q = p + oscillator_freq in q - of_int \<lfloor>q\<rfloor>)"

subsection \<open>What every reachable context satisfies\<close>

text \<open>
  The two arrays keep their allocated lengths, the bin is the sentinel or at most
  \<^verbatim>\<open>fft_nbins\<close>, and the fill count never passes \<^verbatim>\<open>fft_size\<close>.
\<close>

definition context_ok :: "Measure_Context \<Rightarrow> bool" where
  "context_ok ctx =
     (length (fft_in ctx) = 2048 \<and> length (response ctx) = 1025 \<and>
      (current_bin ctx = no_bin \<or> current_bin ctx \<le> fft_nbins) \<and>
      fft_in_fill ctx \<le> fft_size)"

section \<open>Basic facts\<close>

text \<open>Conversions of words are kept as \<open>real (unat w)\<close>, the way the definitions write them.\<close>

declare of_nat_unat [simp del]

lemma unat_fft_size: "unat fft_size = 2048"
  by (simp add: fft_size_def)

lemma unat_fft_nbins: "unat fft_nbins = 1025"
  by (simp add: fft_nbins_def fft_size_def)

lemma no_bin_neq_nbins: "no_bin \<noteq> fft_nbins"
  by (simp add: no_bin_def fft_nbins_def fft_size_def)

section \<open>The sample rate as a float\<close>

lemma excess_bits_small: "n < 2 ^ 24 \<Longrightarrow> excess_bits n = 0"
  by (simp add: excess_bits.simps)

text \<open>Up to \<open>2 ^ 24\<close> the conversion is exact.\<close>

lemma narrow_small [simp]: "n < 16777216 \<Longrightarrow> narrow_to_float n = n"
  by (simp add: narrow_to_float_def excess_bits_small)

lemma narrow_exact: "n \<le> 2 ^ 24 \<Longrightarrow> narrow_to_float n = n"
proof (cases "n < 16777216")
  case True
  then show ?thesis by simp
next
  case False
  assume "n \<le> 2 ^ 24"
  with False have n: "n = 16777216" by simp
  have "excess_bits 8388608 = 0" by (rule excess_bits_small) simp
  then have "excess_bits 16777216 = 1"
    by (simp add: excess_bits.simps [of 16777216])
  then show ?thesis by (simp add: n narrow_to_float_def)
qed

lemma excess_bits_le: "0 < n \<Longrightarrow> 2 ^ excess_bits n \<le> n"
proof (induction n rule: excess_bits.induct)
  case (1 n)
  show ?case
  proof (cases "n < 2 ^ 24")
    case True
    then show ?thesis using "1.prems" by (simp add: excess_bits_small)
  next
    case False
    then have "0 < n div 2" by simp
    from "1.IH" [OF False this] have "2 * 2 ^ excess_bits (n div 2) \<le> 2 * (n div 2)"
      by simp
    also have "\<dots> \<le> n" by simp
    finally show ?thesis using False by (simp add: excess_bits.simps [of n])
  qed
qed

lemma narrow_bounds:
  assumes "0 < n"
  shows "0 < narrow_to_float n" and "narrow_to_float n \<le> 2 * n"
proof -
  define m where "m = (2 :: nat) ^ excess_bits n"
  define q where "q = n div m"
  have e: "m \<le> n" unfolding m_def by (rule excess_bits_le [OF assms])
  have m: "0 < m" by (simp add: m_def)
  have q: "0 < q" using e m by (simp add: q_def div_greater_zero_iff)
  have qe: "q * m \<le> n" by (simp add: q_def)
  have v: "narrow_to_float n = q * m \<or> narrow_to_float n = (q + 1) * m"
    by (simp add: narrow_to_float_def Let_def m_def q_def)
  have "0 < q * m" using q m by simp
  then show "0 < narrow_to_float n" using v by auto
  have "(q + 1) * m = q * m + m" by (simp add: algebra_simps)
  then have "(q + 1) * m \<le> 2 * n" using qe e by linarith
  then show "narrow_to_float n \<le> 2 * n" using v qe by auto
qed

text \<open>Above \<open>2 ^ 24\<close> it is not: 16777301 lies half way between two floats.\<close>

lemma narrow_16777301: "narrow_to_float 16777301 = 16777300"
proof -
  have "excess_bits 8388650 = 0" by (rule excess_bits_small) simp
  then have "excess_bits 16777301 = 1"
    by (simp add: excess_bits.simps [of 16777301])
  then show ?thesis by (simp add: narrow_to_float_def)
qed

section \<open>The loops\<close>

lemma synthesize_full:
  "\<not> fft_in_fill ctx < fft_size \<Longrightarrow> synthesize f ctx ys = (ctx, ys)"
  by (cases ys) simp_all

lemma synthesize_run:
  "fft_in_fill ctx < fft_size \<Longrightarrow>
   synthesize f ctx ys =
     (ctx\<lparr>oscillator_phase := (advance_phase f ^^ length ys) (oscillator_phase ctx)\<rparr>,
      map (\<lambda>i. sin ((advance_phase f ^^ i) (oscillator_phase ctx))) [0..<length ys])"
proof (induction ys arbitrary: ctx)
  case Nil
  then show ?case by simp
next
  case (Cons y ys)
  let ?c = "ctx\<lparr>oscillator_phase := advance_phase f (oscillator_phase ctx)\<rparr>"
  have fill: "fft_in_fill ?c < fft_size" using Cons.prems by simp
  have step: "synthesize f ctx (y # ys) =
      (fst (synthesize f ?c ys), sin (oscillator_phase ctx) # snd (synthesize f ?c ys))"
    using Cons.prems by (simp add: Let_def split: prod.splits)
  have shift: "map (\<lambda>i. sin ((advance_phase f ^^ i) (oscillator_phase ctx))) [0..<length (y # ys)] =
      sin (oscillator_phase ctx) #
      map (\<lambda>i. sin ((advance_phase f ^^ i) (advance_phase f (oscillator_phase ctx)))) [0..<length ys]"
    by (simp add: upt_conv_Cons map_Suc_upt [symmetric] funpow_swap1 del: upt_Suc)
  show ?case
    unfolding step Cons.IH [OF fill] shift
    by (simp add: funpow_swap1)
qed

lemma record_input_append:
  "record_input ctx (xs @ ys) = record_input (record_input ctx xs) ys"
proof (induction xs arbitrary: ctx)
  case Nil
  then show ?case by simp
next
  case (Cons x xs)
  show ?case
  proof (cases "fft_in_fill ctx < fft_size")
    case True
    then show ?thesis using Cons.IH by simp
  next
    case False
    then show ?thesis by (cases ys) simp_all
  qed
qed

lemma count_silence_append:
  "count_silence c (xs @ ys) = count_silence (count_silence c xs) ys"
  by (induction xs arbitrary: c) simp_all

section \<open>The paths through one invocation\<close>

lemma process_done:
  assumes "measure_started g \<noteq> 0" and "current_bin ctx = fft_nbins"
  shows "process g ctx input =
    ((g\<lparr>measure_finished := 1\<rparr>,
      ctx\<lparr>silence_frames_count := count_silence (silence_frames_count ctx) input\<rparr>),
     replicate (length input) 0)"
  using assms by (simp add: process_def)

lemma process_wait:
  assumes "measure_started g \<noteq> 0" and "current_bin ctx \<noteq> fft_nbins"
    and "current_bin ctx = no_bin \<or> fft_in_fill ctx = fft_size"
    and "count_silence (silence_frames_count ctx) input < silence_frames_needed ctx"
  shows "process g ctx input =
    ((g, transform (ctx\<lparr>silence_frames_count := count_silence (silence_frames_count ctx) input\<rparr>)),
     replicate (length input) 0)"
  using assms by (auto simp add: process_def transform_def Let_def)

lemma process_advance:
  assumes "measure_started g \<noteq> 0" and "current_bin ctx \<noteq> fft_nbins"
    and "current_bin ctx = no_bin \<or> fft_in_fill ctx = fft_size"
    and "\<not> count_silence (silence_frames_count ctx) input < silence_frames_needed ctx"
  shows "process g ctx input =
    ((g, (transform (ctx\<lparr>silence_frames_count := count_silence (silence_frames_count ctx) input\<rparr>))
           \<lparr>current_bin := current_bin ctx + 1, fft_in_fill := 0,
            oscillator_phase :=
              (advance_phase (real (unat (current_bin ctx + 1)) / real (unat fft_size))
                 ^^ length input) 0\<rparr>),
     map (\<lambda>i. sin ((advance_phase (real (unat (current_bin ctx + 1)) / real (unat fft_size)) ^^ i) 0))
       [0..<length input])"
proof -
  have z: "(0::32 word) < fft_size" by (simp add: fft_size_def)
  show ?thesis
    using assms z
    by (auto simp add: process_def transform_def Let_def synthesize_run)
qed

lemma process_capture:
  assumes "measure_started g \<noteq> 0" and "current_bin ctx \<noteq> fft_nbins"
    and "current_bin ctx \<noteq> no_bin" and "fft_in_fill ctx < fft_size"
  shows "process g ctx input =
    ((g, record_input
           (ctx\<lparr>silence_frames_count := count_silence (silence_frames_count ctx) input,
                oscillator_phase :=
                  (advance_phase (real (unat (current_bin ctx)) / real (unat fft_size))
                    ^^ length input) (oscillator_phase ctx)\<rparr>) input),
     map (\<lambda>i. sin ((advance_phase (real (unat (current_bin ctx)) / real (unat fft_size)) ^^ i)
                      (oscillator_phase ctx)))
       [0..<length input])"
proof -
  have ne: "fft_in_fill ctx \<noteq> fft_size" using assms(4) by simp
  show ?thesis
    using assms ne
    by (simp add: process_def transform_def Let_def synthesize_run)
qed

section \<open>Sequences of invocations\<close>

lemma process_started:
  "measure_started (fst (fst (process g ctx b))) = measure_started g"
  by (simp add: process_def Let_def split: prod.splits)

lemma ctx_after_Nil: "ctx_after g ctx [] = ctx"
  by (simp add: ctx_after_def)

lemma ctx_after_Cons:
  "ctx_after g ctx (b # bs) =
     ctx_after (fst (fst (process g ctx b))) (snd (fst (process g ctx b))) bs"
  by (simp add: ctx_after_def Let_def)

lemma run_started:
  "measure_started (fst (fst (run g ctx bs))) = measure_started g"
  by (induction bs arbitrary: g ctx) (simp_all add: Let_def process_started)

lemma ctx_after_snoc:
  "ctx_after g ctx (bs @ [b]) =
     snd (fst (process (fst (fst (run g ctx bs))) (ctx_after g ctx bs) b))"
  by (induction bs arbitrary: g ctx) (simp_all add: ctx_after_def Let_def)

text \<open>A property that every invocation keeps holds after any sequence of them.\<close>

lemma ctx_after_invariant:
  assumes "P ctx" and "\<And>g c b. P c \<Longrightarrow> P (snd (fst (process g c b)))"
  shows "P (ctx_after g ctx bs)"
  using assms(1)
proof (induction bs arbitrary: g ctx)
  case Nil
  then show ?case by (simp add: ctx_after_Nil)
next
  case (Cons b bs)
  show ?case
    unfolding ctx_after_Cons
    by (rule Cons.IH) (rule assms(2) [OF Cons.prems])
qed

section \<open>The phase accumulator\<close>

lemma advance_phase_normalized:
  "0 \<le> p + f \<Longrightarrow> advance_phase f p = normalized_step f p"
  by (simp add: advance_phase_def normalized_step_def c_int_def Let_def)

lemma normalized_step_range:
  "0 \<le> normalized_step f p \<and> normalized_step f p < 1"
  by (simp add: normalized_step_def Let_def) linarith

lemma advance_phase_funpow:
  assumes "0 \<le> p" and "p < 1" and "0 \<le> f"
  shows "(advance_phase f ^^ n) p = (normalized_step f ^^ n) p \<and>
         0 \<le> (normalized_step f ^^ n) p \<and> (normalized_step f ^^ n) p < 1"
proof (induction n)
  case 0
  show ?case using assms by simp
next
  case (Suc n)
  let ?q = "(normalized_step f ^^ n) p"
  have "advance_phase f ?q = normalized_step f ?q"
    using Suc assms(3) by (intro advance_phase_normalized) simp
  then show ?case
    using Suc normalized_step_range [of f ?q] by simp
qed

lemma record_input_phase:
  "oscillator_phase (record_input ctx xs) = oscillator_phase ctx"
  by (induction ctx xs rule: record_input.induct) simp_all

lemma transform_phase:
  "oscillator_phase (transform ctx) = oscillator_phase ctx"
  by (simp add: transform_def Let_def)

lemma record_input_full:
  "\<not> fft_in_fill ctx < fft_size \<Longrightarrow> record_input ctx xs = ctx"
  by (cases xs) simp_all

lemma process_over:
  assumes "measure_started g \<noteq> 0" and "current_bin ctx \<noteq> fft_nbins"
    and "current_bin ctx \<noteq> no_bin" and "fft_size < fft_in_fill ctx"
  shows "process g ctx input =
    ((g, ctx\<lparr>silence_frames_count := count_silence (silence_frames_count ctx) input\<rparr>),
     replicate (length input) 0)"
proof -
  have "\<not> fft_in_fill ctx < fft_size" "fft_in_fill ctx \<noteq> fft_size"
    using assms(4) by auto
  then show ?thesis
    using assms by (simp add: process_def transform_def Let_def synthesize_full record_input_full)
qed

text \<open>The six ways through an invocation; the last one has an overfull capture buffer.\<close>

lemma process_cases:
  obtains (idle) "measure_started g = 0"
  | (finished) "measure_started g \<noteq> 0" "current_bin ctx = fft_nbins"
  | (wait) "measure_started g \<noteq> 0" "current_bin ctx \<noteq> fft_nbins"
      "current_bin ctx = no_bin \<or> fft_in_fill ctx = fft_size"
      "count_silence (silence_frames_count ctx) b < silence_frames_needed ctx"
  | (advance) "measure_started g \<noteq> 0" "current_bin ctx \<noteq> fft_nbins"
      "current_bin ctx = no_bin \<or> fft_in_fill ctx = fft_size"
      "\<not> count_silence (silence_frames_count ctx) b < silence_frames_needed ctx"
  | (capture) "measure_started g \<noteq> 0" "current_bin ctx \<noteq> fft_nbins"
      "current_bin ctx \<noteq> no_bin" "fft_in_fill ctx < fft_size"
  | (over) "measure_started g \<noteq> 0" "current_bin ctx \<noteq> fft_nbins"
      "current_bin ctx \<noteq> no_bin" "fft_size < fft_in_fill ctx"
  by (metis linorder_neqE)

lemma freq_nonneg: "0 \<le> real (unat (w :: 32 word)) / real (unat fft_size)"
  by (intro divide_nonneg_nonneg of_nat_0_le_iff)

lemma process_phase_range:
  assumes "0 \<le> oscillator_phase ctx \<and> oscillator_phase ctx < 1"
  shows "0 \<le> oscillator_phase (snd (fst (process g ctx b))) \<and>
         oscillator_phase (snd (fst (process g ctx b))) < 1"
proof (cases rule: process_cases [where g = g and ctx = ctx and b = b])
  case idle
  then show ?thesis using assms by (simp add: process_def)
next
  case finished
  then show ?thesis using assms by (simp add: process_done)
next
  case wait
  then show ?thesis using assms by (simp add: process_wait transform_phase)
next
  case advance
  then show ?thesis
    using advance_phase_funpow [of 0 "real (unat (current_bin ctx + 1)) / real (unat fft_size)" "length b"]
      freq_nonneg [of "current_bin ctx + 1"]
    by (simp add: process_advance)
next
  case capture
  then show ?thesis
    using advance_phase_funpow [of "oscillator_phase ctx" "real (unat (current_bin ctx)) / real (unat fft_size)" "length b"]
      freq_nonneg [of "current_bin ctx"] assms
    by (simp add: process_capture record_input_phase)
next
  case over
  then show ?thesis using assms by (simp add: process_over)
qed

lemma main_setup_fields:
  "fft_in (main_setup mem_in mem_out sr) = map mem_in [0..<2048]"
  "fft_out (main_setup mem_in mem_out sr) = map mem_out [0..<1025]"
  "current_bin (main_setup mem_in mem_out sr) = no_bin"
  "fft_in_fill (main_setup mem_in mem_out sr) = 0"
  "oscillator_phase (main_setup mem_in mem_out sr) = 0"
  "response (main_setup mem_in mem_out sr) = replicate 1025 0"
  "silence_frames_count (main_setup mem_in mem_out sr) = 0"
  "silence_frames_needed (main_setup mem_in mem_out sr) =
     word_of_int \<lceil>10 / 1000 * real (narrow_to_float (unat sr))\<rceil>"
  by (simp_all add: main_setup_def setup_fft_def Measure_Context_default_def
      unat_fft_size unat_fft_nbins Let_def)

lemma reachable_phase_range:
  "0 \<le> oscillator_phase (ctx_after g (main_setup mem_in mem_out sr) bs) \<and>
   oscillator_phase (ctx_after g (main_setup mem_in mem_out sr) bs) < 1"
  by (rule ctx_after_invariant [where P = "\<lambda>c. 0 \<le> oscillator_phase c \<and> oscillator_phase c < 1"])
     (simp_all add: main_setup_fields process_phase_range)

lemma count_silence_quiet:
  "\<bar>x\<bar> < silence_threshold \<Longrightarrow> count_silence c (replicate n x) = c + of_nat n"
  by (induction n arbitrary: c) (simp_all add: add.assoc add.commute)

section \<open>The window and the capture buffer\<close>

lemma window_loop_length:
  "length (fold (\<lambda>i b. b[i := b ! i * w i]) [0..<n] buf) = length buf"
  by (induction n) simp_all

lemma window_loop_nth:
  "fold (\<lambda>i b. b[i := b ! i * w i]) [0..<n] buf ! j =
     (if j < n \<and> j < length buf then buf ! j * w j else buf ! j)"
proof (induction n)
  case 0
  show ?case by simp
next
  case (Suc n)
  show ?case
    using Suc.IH window_loop_length [of w n buf]
    by (cases "j = n") (auto simp add: nth_list_update list_update_beyond)
qed

lemma apply_window_length: "length (apply_window buf) = length buf"
  by (simp add: apply_window_def window_loop_length)

lemma apply_window_nth:
  "i < length buf \<Longrightarrow> i < 2048 \<Longrightarrow> apply_window buf ! i = buf ! i * window i"
  by (simp add: apply_window_def window_loop_nth unat_fft_size)

lemma window_formula:
  "window i = 0.42 - 0.5 * cos (2 * pi * real i / 2047) + 0.08 * cos (4 * pi * real i / 2047)"
proof -
  have "unat (fft_size - 1) = 2047" by (simp add: fft_size_def)
  then show ?thesis by (simp add: window_def Let_def)
qed

lemma fftwf_execute_length: "length (fftwf_execute xs) = 1025"
  by (simp add: fftwf_execute_def unat_fft_nbins)

lemma transform_fields:
  "current_bin (transform ctx) = current_bin ctx"
  "fft_in_fill (transform ctx) = fft_in_fill ctx"
  "silence_frames_count (transform ctx) = silence_frames_count ctx"
  "silence_frames_needed (transform ctx) = silence_frames_needed ctx"
  "length (fft_in (transform ctx)) = length (fft_in ctx)"
  "length (response (transform ctx)) = length (response ctx)"
  by (simp_all add: transform_def Let_def apply_window_length)

lemma transform_runs:
  assumes "current_bin ctx \<noteq> no_bin" and "fft_in_fill ctx = fft_size"
  shows "fft_in (transform ctx) = apply_window (fft_in ctx)"
    and "fft_out (transform ctx) = fftwf_execute (apply_window (fft_in ctx))"
    and "response (transform ctx) =
           (response ctx)[unat (current_bin ctx) :=
              fftwf_execute (apply_window (fft_in ctx)) ! unat (current_bin ctx)]"
  using assms by (simp_all add: transform_def Let_def)

lemma transform_skips:
  "current_bin ctx = no_bin \<or> fft_in_fill ctx \<noteq> fft_size \<Longrightarrow> transform ctx = ctx"
  by (auto simp add: transform_def)

lemma record_input_fields:
  "current_bin (record_input ctx xs) = current_bin ctx"
  "silence_frames_count (record_input ctx xs) = silence_frames_count ctx"
  "silence_frames_needed (record_input ctx xs) = silence_frames_needed ctx"
  "response (record_input ctx xs) = response ctx"
  "fft_out (record_input ctx xs) = fft_out ctx"
  "length (fft_in (record_input ctx xs)) = length (fft_in ctx)"
  by (induction ctx xs rule: record_input.induct) simp_all

lemma fill_step:
  assumes "(w :: 32 word) < fft_size"
  shows "unat (w + 1) = Suc (unat w)" and "w + 1 \<le> fft_size"
proof -
  have "unat w < 2048" using assms by (simp add: word_less_nat_alt unat_fft_size)
  then show u: "unat (w + 1) = Suc (unat w)"
    by (simp add: unat_word_ariths)
  show "w + 1 \<le> fft_size"
    using \<open>unat w < 2048\<close> by (simp add: word_le_nat_alt u unat_fft_size)
qed

lemma record_input_fill:
  "fft_in_fill ctx \<le> fft_size \<Longrightarrow>
   unat (fft_in_fill (record_input ctx xs)) = min 2048 (unat (fft_in_fill ctx) + length xs)"
proof (induction ctx xs rule: record_input.induct)
  case (1 ctx)
  then show ?case by (simp add: word_le_nat_alt unat_fft_size)
next
  case (2 ctx x xs)
  show ?case
  proof (cases "fft_in_fill ctx < fft_size")
    case True
    then show ?thesis using "2.IH" fill_step [OF True] by simp
  next
    case False
    with "2.prems" have "unat (fft_in_fill ctx) = 2048"
      by (simp add: word_le_nat_alt word_less_nat_alt unat_fft_size)
    with False show ?thesis by simp
  qed
qed

lemma record_input_buffer:
  "fft_in_fill ctx \<le> fft_size \<Longrightarrow> length (fft_in ctx) = 2048 \<Longrightarrow>
   fft_in (record_input ctx xs) =
     take (unat (fft_in_fill ctx)) (fft_in ctx) @ take (2048 - unat (fft_in_fill ctx)) xs @
     drop (unat (fft_in_fill ctx) + length xs) (fft_in ctx)"
proof (induction ctx xs rule: record_input.induct)
  case (1 ctx)
  then show ?case by simp
next
  case (2 ctx x xs)
  let ?f = "unat (fft_in_fill ctx)"
  show ?case
  proof (cases "fft_in_fill ctx < fft_size")
    case True
    then have f: "?f < 2048" by (simp add: word_less_nat_alt unat_fft_size)
    have t: "take (Suc ?f) ((fft_in ctx)[?f := x]) = take ?f (fft_in ctx) @ [x]"
      using f "2.prems"(2) by (simp add: take_Suc_conv_app_nth)
    have d: "drop (Suc (?f + length xs)) ((fft_in ctx)[?f := x]) =
             drop (Suc (?f + length xs)) (fft_in ctx)"
      by (simp add: drop_update_cancel)
    have k: "take (2048 - ?f) (x # xs) = x # take (2048 - Suc ?f) xs"
      using f by (simp add: take_Cons')
    show ?thesis
      using True "2.IH" [OF True] fill_step [OF True] "2.prems"(2)
      by (simp add: t d k del: take_Suc_Cons)
  next
    case False
    with "2.prems" have "?f = 2048"
      by (simp add: word_le_nat_alt word_less_nat_alt unat_fft_size)
    with False "2.prems"(2) show ?thesis by simp
  qed
qed

section \<open>Reachable contexts\<close>

lemma bin_step:
  assumes "(w :: 32 word) \<le> fft_nbins" and "w \<noteq> fft_nbins"
  shows "w + 1 \<le> fft_nbins" and "unat (w + 1) = Suc (unat w)" and "unat w < 1025"
proof -
  have "unat w \<le> 1025" using assms(1) by (simp add: word_le_nat_alt unat_fft_nbins)
  moreover have "unat w \<noteq> 1025"
    using assms(2) by (metis unat_fft_nbins word_unat_eq_iff)
  ultimately show l: "unat w < 1025" by simp
  then show u: "unat (w + 1) = Suc (unat w)" by (simp add: unat_word_ariths)
  show "w + 1 \<le> fft_nbins" using l by (simp add: word_le_nat_alt u unat_fft_nbins)
qed

lemma process_context_ok:
  assumes "context_ok ctx"
  shows "context_ok (snd (fst (process g ctx b)))"
proof (cases rule: process_cases [where g = g and ctx = ctx and b = b])
  case idle
  then show ?thesis using assms by (simp add: process_def)
next
  case finished
  then show ?thesis using assms by (simp add: process_done context_ok_def)
next
  case wait
  then show ?thesis using assms by (simp add: process_wait context_ok_def transform_fields)
next
  case advance
  have "current_bin ctx + 1 = 0" if "current_bin ctx = no_bin"
    using that by (simp add: no_bin_def)
  moreover have "current_bin ctx + 1 \<le> fft_nbins" if "current_bin ctx \<le> fft_nbins"
    using bin_step(1) [OF that advance(2)] .
  ultimately have "current_bin ctx + 1 \<le> fft_nbins"
    using assms by (auto simp add: context_ok_def)
  then show ?thesis
    using advance assms by (simp add: process_advance context_ok_def transform_fields)
next
  case capture
  let ?c = "ctx\<lparr>silence_frames_count := count_silence (silence_frames_count ctx) b,
      oscillator_phase :=
        (advance_phase (real (unat (current_bin ctx)) / real (unat fft_size)) ^^ length b)
          (oscillator_phase ctx)\<rparr>"
  have le: "fft_in_fill ?c \<le> fft_size" using assms by (simp add: context_ok_def)
  have "unat (fft_in_fill (record_input ?c b)) \<le> 2048"
    by (simp add: record_input_fill [OF le])
  then have "fft_in_fill (record_input ?c b) \<le> fft_size"
    by (simp add: word_le_nat_alt unat_fft_size)
  then show ?thesis
    using capture assms by (simp add: process_capture context_ok_def record_input_fields)
next
  case over
  then show ?thesis using assms by (simp add: process_over context_ok_def)
qed

lemma main_setup_ok: "context_ok (main_setup mem_in mem_out sr)"
  by (simp add: context_ok_def main_setup_fields)

lemma reachable_ok: "context_ok (ctx_after g (main_setup mem_in mem_out sr) bs)"
  by (rule ctx_after_invariant [where P = context_ok])
     (simp_all add: main_setup_ok process_context_ok)

section \<open>Two standard invocations\<close>

text \<open>The gate in front of bin 0 opens.\<close>

lemma first_gate_opens:
  assumes "measure_started g \<noteq> 0" and "current_bin ctx = no_bin"
    and "silence_frames_needed ctx \<le> count_silence (silence_frames_count ctx) input"
  shows "snd (fst (process g ctx input)) =
     ctx\<lparr>silence_frames_count := count_silence (silence_frames_count ctx) input,
         current_bin := 0, fft_in_fill := 0,
         oscillator_phase := (advance_phase 0 ^^ length input) 0\<rparr>"
proof -
  have ne: "current_bin ctx \<noteq> fft_nbins" by (simp add: assms(2) no_bin_neq_nbins)
  have gate: "\<not> count_silence (silence_frames_count ctx) input < silence_frames_needed ctx"
    using assms(3) by (simp add: not_less)
  have one: "no_bin + 1 = 0" by (simp add: no_bin_def)
  show ?thesis
    using process_advance [OF assms(1) ne _ gate] assms(2)
    by (simp add: one transform_skips)
qed

text \<open>An empty capture buffer is filled by one buffer of \<^verbatim>\<open>fft_size\<close> samples.\<close>

lemma whole_capture:
  assumes "measure_started g \<noteq> 0" and "current_bin ctx \<noteq> fft_nbins"
    and "current_bin ctx \<noteq> no_bin" and "fft_in_fill ctx = 0"
    and "length (fft_in ctx) = 2048" and "length input = 2048"
  shows "fft_in (snd (fst (process g ctx input))) = input"
    and "fft_in_fill (snd (fst (process g ctx input))) = fft_size"
    and "current_bin (snd (fst (process g ctx input))) = current_bin ctx"
    and "response (snd (fst (process g ctx input))) = response ctx"
    and "silence_frames_needed (snd (fst (process g ctx input))) = silence_frames_needed ctx"
    and "silence_frames_count (snd (fst (process g ctx input))) =
           count_silence (silence_frames_count ctx) input"
proof -
  let ?c = "ctx\<lparr>silence_frames_count := count_silence (silence_frames_count ctx) input,
      oscillator_phase :=
        (advance_phase (real (unat (current_bin ctx)) / real (unat fft_size)) ^^ length input)
          (oscillator_phase ctx)\<rparr>"
  have lt: "fft_in_fill ctx < fft_size" by (simp add: assms(4) fft_size_def)
  have p: "snd (fst (process g ctx input)) = record_input ?c input"
    by (simp add: process_capture [OF assms(1-3) lt])
  have le: "fft_in_fill ?c \<le> fft_size" by (simp add: assms(4))
  have len: "length (fft_in ?c) = 2048" by (simp add: assms(5))
  show "fft_in (snd (fst (process g ctx input))) = input"
    unfolding p using record_input_buffer [OF le len, of input]
    by (simp add: assms(4) assms(5) assms(6))
  have "unat (fft_in_fill (record_input ?c input)) = unat fft_size"
    using record_input_fill [OF le, of input] by (simp add: assms(4) assms(6) unat_fft_size)
  then show "fft_in_fill (snd (fst (process g ctx input))) = fft_size"
    unfolding p by (simp only: word_unat_eq_iff)
  show "current_bin (snd (fst (process g ctx input))) = current_bin ctx"
    and "response (snd (fst (process g ctx input))) = response ctx"
    and "silence_frames_needed (snd (fst (process g ctx input))) = silence_frames_needed ctx"
    and "silence_frames_count (snd (fst (process g ctx input))) =
           count_silence (silence_frames_count ctx) input"
    unfolding p by (simp_all add: record_input_fields)
qed

text \<open>
  At 48 kHz the gate needs 480 quiet samples. After a quiet buffer of at least that
  length and one buffer of \<^verbatim>\<open>fft_size\<close> samples, bin 0 has its capture buffer full.
\<close>

lemma bin0_captured:
  fixes mem_in :: "nat \<Rightarrow> real" and mem_out :: "nat \<Rightarrow> complex"
  assumes "measure_started g \<noteq> 0" and "480 \<le> n" and "n < 2 ^ 32" and "length xs = 2048"
  defines "c \<equiv> ctx_after g (main_setup mem_in mem_out 48000) [replicate n 0, xs]"
  shows "fft_in c = xs" and "fft_in_fill c = fft_size" and "current_bin c = 0"
    and "response c = replicate 1025 0" and "silence_frames_needed c = 480"
    and "silence_frames_count c = count_silence (of_nat n) xs"
proof -
  let ?m = "main_setup mem_in mem_out 48000"
  let ?g1 = "fst (fst (process g ?m (replicate n 0)))"
  let ?c1 = "snd (fst (process g ?m (replicate n 0)))"
  have need: "silence_frames_needed ?m = 480" by (simp add: main_setup_fields)
  have cnt: "count_silence (silence_frames_count ?m) (replicate n 0) = of_nat n"
    by (simp add: main_setup_fields count_silence_quiet silence_threshold_def)
  have "unat (of_nat n :: 32 word) = n"
    using assms(3) by (simp add: unat_of_nat)
  then have gate: "silence_frames_needed ?m \<le> count_silence (silence_frames_count ?m) (replicate n 0)"
    using assms(2) by (simp add: need cnt word_le_nat_alt)
  have c1: "?c1 = ?m\<lparr>silence_frames_count := of_nat n, current_bin := 0, fft_in_fill := 0,
         oscillator_phase := (advance_phase 0 ^^ n) 0\<rparr>"
    using first_gate_opens [OF assms(1) _ gate] cnt by (simp add: main_setup_fields)
  have g1: "measure_started ?g1 \<noteq> 0" using assms(1) by (simp add: process_started)
  have b1: "current_bin ?c1 \<noteq> fft_nbins" "current_bin ?c1 \<noteq> no_bin"
    by (simp_all add: c1 fft_nbins_def fft_size_def no_bin_def)
  have f1: "fft_in_fill ?c1 = 0" by (simp add: c1)
  have l1: "length (fft_in ?c1) = 2048" by (simp add: c1 main_setup_fields)
  have c: "c = snd (fst (process ?g1 ?c1 xs))"
    by (simp add: c_def ctx_after_Cons ctx_after_Nil)
  note w = whole_capture [OF g1 b1 f1 l1 assms(4)]
  show "fft_in c = xs" by (simp add: c w)
  show "fft_in_fill c = fft_size" by (simp add: c w)
  show "current_bin c = 0" by (simp add: c w) (simp add: c1)
  show "response c = replicate 1025 0" by (simp add: c w) (simp add: c1 main_setup_fields)
  show "silence_frames_needed c = 480" by (simp add: c w) (simp add: c1 main_setup_fields)
  show "silence_frames_count c = count_silence (of_nat n) xs" by (simp add: c w) (simp add: c1)
qed

lemma process_bin_changes:
  assumes "current_bin (snd (fst (process g ctx input))) \<noteq> current_bin ctx"
  shows "measure_started g \<noteq> 0" and "current_bin ctx \<noteq> fft_nbins"
    and "current_bin ctx = no_bin \<or> fft_in_fill ctx = fft_size"
    and "\<not> count_silence (silence_frames_count ctx) input < silence_frames_needed ctx"
proof -
  have "measure_started g \<noteq> 0 \<and> current_bin ctx \<noteq> fft_nbins \<and>
      (current_bin ctx = no_bin \<or> fft_in_fill ctx = fft_size) \<and>
      \<not> count_silence (silence_frames_count ctx) input < silence_frames_needed ctx"
  proof (cases rule: process_cases [where g = g and ctx = ctx and b = input])
    case idle
    then show ?thesis using assms by (simp add: process_def)
  next
    case finished
    then show ?thesis using assms by (simp add: process_done)
  next
    case wait
    then show ?thesis using assms by (simp add: process_wait transform_fields)
  next
    case advance
    then show ?thesis by simp
  next
    case capture
    then show ?thesis using assms by (simp add: process_capture record_input_fields)
  next
    case over
    then show ?thesis using assms by (simp add: process_over)
  qed
  then show "measure_started g \<noteq> 0" and "current_bin ctx \<noteq> fft_nbins"
    and "current_bin ctx = no_bin \<or> fft_in_fill ctx = fft_size"
    and "\<not> count_silence (silence_frames_count ctx) input < silence_frames_needed ctx"
    by simp_all
qed

section \<open>The silence counter and the gate\<close>

lemma word_pos_of_less: "(c :: 32 word) < n \<Longrightarrow> 0 < n"
  by (metis word_gt_0 word_not_simps(1))

lemma unat_succ_le: "unat ((c :: 32 word) + 1) \<le> Suc (unat c)"
proof -
  have "unat (c + 1) = (unat c + unat (1 :: 32 word)) mod 2 ^ 32"
    by (simp only: unat_word_ariths(1)) simp
  also have "\<dots> \<le> unat c + unat (1 :: 32 word)" by (rule mod_less_eq_dividend)
  finally show ?thesis by simp
qed

lemma unat_word_of_int_small:
  assumes "0 \<le> k" and "k \<le> int (unat (w :: 32 word))"
  shows "unat (word_of_int k :: 32 word) = nat k"
proof -
  have "nat k \<le> unat w" using assms by simp
  then have "unat (word_of_nat (nat k) :: 32 word) = nat k"
    by (rule le_unat_uoi)
  moreover have "(word_of_nat (nat k) :: 32 word) = word_of_int k"
    using assms(1) by (metis int_nat_eq of_int_of_nat_eq)
  ultimately show ?thesis by simp
qed

lemma threshold_below_hundredth: "silence_threshold < 1 / 100"
  by (simp add: silence_threshold_def)

lemma process_count:
  "measure_started g \<noteq> 0 \<Longrightarrow>
   silence_frames_count (snd (fst (process g ctx b))) =
     count_silence (silence_frames_count ctx) b"
  by (cases rule: process_cases [where g = g and ctx = ctx and b = b])
     (simp_all add: process_done process_wait process_advance process_capture process_over
        transform_fields record_input_fields)

lemma process_needed:
  "silence_frames_needed (snd (fst (process g ctx b))) = silence_frames_needed ctx"
proof (cases "measure_started g = 0")
  case True
  then show ?thesis by (simp add: process_def)
next
  case False
  then show ?thesis
    by (cases rule: process_cases [where g = g and ctx = ctx and b = b])
       (simp_all add: process_done process_wait process_advance
          process_capture process_over transform_fields record_input_fields)
qed

lemma ctx_after_needed:
  "silence_frames_needed (ctx_after g ctx bs) = silence_frames_needed ctx"
  by (rule ctx_after_invariant
        [where P = "\<lambda>c. silence_frames_needed c = silence_frames_needed ctx"])
     (simp_all add: process_needed)

lemma ctx_after_append:
  "ctx_after g ctx (as @ bs) = ctx_after (fst (fst (run g ctx as))) (ctx_after g ctx as) bs"
  by (induction as arbitrary: g ctx) (simp_all add: ctx_after_def Let_def)

text \<open>Below the gate value nothing moves the bin.\<close>

lemma process_gate_closed:
  assumes "count_silence (silence_frames_count ctx) b < silence_frames_needed ctx"
  shows "current_bin (snd (fst (process g ctx b))) = current_bin ctx"
proof (rule ccontr)
  assume "current_bin (snd (fst (process g ctx b))) \<noteq> current_bin ctx"
  from process_bin_changes(4) [OF this] assms show False by simp
qed

lemma count_silence_loud:
  "\<forall>x\<in>set xs. 1 / 100 \<le> \<bar>x\<bar> \<Longrightarrow> count_silence c xs = (if xs = [] then c else 0)"
proof (induction xs arbitrary: c)
  case Nil
  show ?case by simp
next
  case (Cons x xs)
  then have "\<not> \<bar>x\<bar> < silence_threshold"
    using threshold_below_hundredth by simp
  with Cons show ?case by simp
qed

lemma loud_run_keeps_bin:
  assumes "measure_started g \<noteq> 0"
    and "silence_frames_count ctx < silence_frames_needed ctx"
    and "\<forall>b\<in>set bs. \<forall>x\<in>set b. 1 / 100 \<le> \<bar>x\<bar>"
  shows "current_bin (ctx_after g ctx bs) = current_bin ctx"
  using assms
proof (induction bs arbitrary: g ctx)
  case Nil
  show ?case by (simp add: ctx_after_Nil)
next
  case (Cons b bs)
  let ?g = "fst (fst (process g ctx b))" and ?c = "snd (fst (process g ctx b))"
  have pos: "0 < silence_frames_needed ctx"
    using Cons.prems(2) by (rule word_pos_of_less)
  have cs: "count_silence (silence_frames_count ctx) b < silence_frames_needed ctx"
    using count_silence_loud [of b "silence_frames_count ctx"] Cons.prems(2,3) pos
    by (cases "b = []") simp_all
  have bin: "current_bin ?c = current_bin ctx" by (rule process_gate_closed [OF cs])
  have "current_bin (ctx_after ?g ?c bs) = current_bin ?c"
  proof (rule Cons.IH)
    show "measure_started ?g \<noteq> 0" using Cons.prems(1) by (simp add: process_started)
    show "silence_frames_count ?c < silence_frames_needed ?c"
      using cs by (simp add: process_count [OF Cons.prems(1)] process_needed)
    show "\<forall>b\<in>set bs. \<forall>x\<in>set b. 1 / 100 \<le> \<bar>x\<bar>" using Cons.prems(3) by simp
  qed
  then show ?case by (simp add: ctx_after_Cons bin)
qed

lemma loud_nonempty_run_keeps_bin:
  assumes "measure_started g \<noteq> 0" and "silence_frames_needed ctx \<noteq> 0"
    and "\<forall>b\<in>set bs. b \<noteq> [] \<and> (\<forall>x\<in>set b. 1 / 100 \<le> \<bar>x\<bar>)"
  shows "current_bin (ctx_after g ctx bs) = current_bin ctx"
proof (cases bs)
  case Nil
  then show ?thesis by (simp add: ctx_after_Nil)
next
  case (Cons b rest)
  let ?g = "fst (fst (process g ctx b))" and ?c = "snd (fst (process g ctx b))"
  have pos: "0 < silence_frames_needed ctx"
    using assms(2) by (simp add: word_gt_0)
  have z: "count_silence (silence_frames_count ctx) b = 0"
    using count_silence_loud [of b "silence_frames_count ctx"] assms(3) Cons by simp
  have bin: "current_bin ?c = current_bin ctx"
    by (rule process_gate_closed) (simp add: z pos)
  have "current_bin (ctx_after ?g ?c rest) = current_bin ?c"
  proof (rule loud_run_keeps_bin)
    show "measure_started ?g \<noteq> 0" using assms(1) by (simp add: process_started)
    show "silence_frames_count ?c < silence_frames_needed ?c"
      using pos by (simp add: process_count [OF assms(1)] process_needed z)
    show "\<forall>b\<in>set rest. \<forall>x\<in>set b. 1 / 100 \<le> \<bar>x\<bar>" using assms(3) Cons by simp
  qed
  then show ?thesis by (simp add: Cons ctx_after_Cons bin)
qed

text \<open>The counter never exceeds the run of quiet samples that ends the input so far.\<close>

lemma count_silence_trailing:
  assumes "unat c \<le> length (takeWhile (\<lambda>x. \<bar>x\<bar> < silence_threshold) (rev pre))"
  shows "unat (count_silence c xs)
           \<le> length (takeWhile (\<lambda>x. \<bar>x\<bar> < silence_threshold) (rev (pre @ xs)))"
  using assms
proof (induction xs arbitrary: c pre)
  case Nil
  then show ?case by simp
next
  case (Cons x xs)
  let ?c = "if \<bar>x\<bar> < silence_threshold then c + 1 else 0"
  have "unat (c + 1) \<le> Suc (unat c)" by (rule unat_succ_le)
  then have "unat ?c \<le> length (takeWhile (\<lambda>x. \<bar>x\<bar> < silence_threshold) (rev (pre @ [x])))"
    using Cons.prems by simp
  from Cons.IH [OF this] show ?case by simp
qed

lemma run_count_trailing:
  assumes "measure_started g \<noteq> 0"
    and "unat (silence_frames_count ctx)
           \<le> length (takeWhile (\<lambda>x. \<bar>x\<bar> < silence_threshold) (rev pre))"
  shows "unat (silence_frames_count (ctx_after g ctx bs))
           \<le> length (takeWhile (\<lambda>x. \<bar>x\<bar> < silence_threshold) (rev (pre @ concat bs)))"
  using assms
proof (induction bs arbitrary: g ctx pre)
  case Nil
  then show ?case by (simp add: ctx_after_Nil)
next
  case (Cons b bs)
  let ?g = "fst (fst (process g ctx b))" and ?c = "snd (fst (process g ctx b))"
  have g: "measure_started ?g \<noteq> 0" using Cons.prems(1) by (simp add: process_started)
  have "unat (silence_frames_count ?c)
      \<le> length (takeWhile (\<lambda>x. \<bar>x\<bar> < silence_threshold) (rev (pre @ b)))"
    unfolding process_count [OF Cons.prems(1)]
    by (rule count_silence_trailing [OF Cons.prems(2)])
  from Cons.IH [OF g this] show ?case by (simp add: ctx_after_Cons)
qed

lemma main_setup_needed:
  "unat (silence_frames_needed (main_setup mem_in mem_out sr)) =
     nat \<lceil>0.010 * real (narrow_to_float (unat sr))\<rceil>"
proof -
  let ?f = "narrow_to_float (unat sr)"
  let ?k = "\<lceil>10 / 1000 * real ?f\<rceil>"
  have "?f \<le> 2 * unat sr"
    by (cases "unat sr = 0") (simp_all add: narrow_bounds(2))
  then have "real ?f \<le> 2 * real (unat sr)"
    by (metis of_nat_le_iff of_nat_mult of_nat_numeral)
  then have "10 / 1000 * real ?f \<le> real (unat sr)" by simp
  then have le: "?k \<le> int (unat sr)" by (simp add: ceiling_le_iff)
  have "0 \<le> 10 / 1000 * real ?f" by simp
  then have "0 \<le> ?k" by (simp only: zero_le_ceiling)
  from unat_word_of_int_small [OF this le] show ?thesis
    by (simp add: main_setup_fields)
qed

lemma main_setup_needed_pos:
  "sr \<noteq> 0 \<Longrightarrow> silence_frames_needed (main_setup mem_in mem_out sr) \<noteq> 0"
proof
  assume sr: "sr \<noteq> 0" and z: "silence_frames_needed (main_setup mem_in mem_out sr) = 0"
  have "0 < unat sr" using sr by (simp add: unat_gt_0)
  then have "0 < narrow_to_float (unat sr)" by (rule narrow_bounds(1))
  then have "0 < \<lceil>0.010 * real (narrow_to_float (unat sr))\<rceil>" by simp
  then show False
    using main_setup_needed [of mem_in mem_out sr] z by simp
qed

section \<open>The report loop\<close>

lemma append_loop:
  "fold (\<lambda>i fh. fh @ [f i]) [0..<n] acc = acc @ map f [0..<n]"
  by (induction n) simp_all

lemma write_response_map:
  "write_response sample_rate resp =
     map (\<lambda>i. (real i * (real (unat sample_rate) / 2048), cmod (resp ! i) / 2048, Arg (resp ! i)))
       [0..<1025]"
  by (simp add: write_response_def Let_def append_loop unat_fft_size unat_fft_nbins)

section \<open>Values of the transform and of the window\<close>

lemma fftwf_execute_dc:
  "fftwf_execute xs ! 0 = complex_of_real (\<Sum>j<2048. xs ! j)"
proof -
  have "fftwf_execute xs ! 0 =
      (\<Sum>j<2048. complex_of_real (xs ! j) * cis (- (2 * pi * real j * real (0::nat) / 2048)))"
    by (simp add: fftwf_execute_def unat_fft_size unat_fft_nbins nth_map_upt del: upt_Suc)
  then show ?thesis by simp
qed

lemma window_one_range: "0 < window 1 \<and> window 1 < 1"
proof -
  define t :: real where "t = 2 * pi / 2047"
  define c where "c = cos t"
  have t: "0 < t" "t < pi / 2" using pi_gt_zero by (simp_all add: t_def)
  have c0: "0 < c" unfolding c_def by (rule cos_gt_zero [OF t])
  have "cos t < cos 0" by (rule cos_monotone_0_pi) (use t pi_gt_zero in simp_all)
  then have c1: "c < 1" by (simp add: c_def)
  have "4 * pi / 2047 = 2 * t" by (simp add: t_def)
  then have w: "window 1 = 0.42 - 0.5 * c + 0.08 * (2 * c ^ 2 - 1)"
    by (simp add: window_formula c_def t_def cos_double_cos [symmetric])
  have f1: "window 1 = 4 / 25 * ((1 - c) * (17 / 8 - c))"
    unfolding w by (simp add: field_simps power2_eq_square)
  have f2: "window 1 = 17 / 50 - c / 2 + 4 / 25 * (c * c)"
    unfolding w by (simp add: field_simps power2_eq_square)
  have "0 < (1 - c) * (17 / 8 - c)" using c1 by (intro mult_pos_pos) simp_all
  then have pos: "0 < window 1" unfolding f1 by simp
  have "c * c < 1 * 1" using c0 c1 by (intro mult_strict_mono) simp_all
  then have "window 1 < 1" unfolding f2 using c0 by simp
  with pos show ?thesis by simp
qed

text \<open>A capture buffer whose only non-zero sample is a 1 at index 1.\<close>

lemma pulse_nth:
  "j < 2048 \<Longrightarrow> (0 # 1 # replicate 2046 (0 :: real)) ! j = (if j = 1 then 1 else 0)"
  by (cases j) (auto simp add: nth_Cons')

lemma pulse_dc:
  assumes "\<And>j. j < 2048 \<Longrightarrow> xs ! j = (if j = 1 then v else (0 :: real))"
  shows "(\<Sum>j<2048. xs ! j) = v"
proof -
  have "(\<Sum>j<2048. xs ! j) = (\<Sum>j\<in>{..<2048::nat}. if j = 1 then v else 0)"
    by (rule sum.cong) (simp_all add: assms)
  also have "\<dots> = v" by (simp add: sum.delta')
  finally show ?thesis .
qed

text \<open>With a bin selected and the capture buffer full, the transform block runs.\<close>

lemma process_at_full:
  assumes "measure_started g \<noteq> 0" and "current_bin ctx \<noteq> fft_nbins"
    and "current_bin ctx \<noteq> no_bin" and "fft_in_fill ctx = fft_size"
  shows "fft_in (snd (fst (process g ctx input))) = apply_window (fft_in ctx)"
    and "response (snd (fst (process g ctx input))) =
           (response ctx)[unat (current_bin ctx) :=
              fftwf_execute (apply_window (fft_in ctx)) ! unat (current_bin ctx)]"
    and "count_silence (silence_frames_count ctx) input < silence_frames_needed ctx \<Longrightarrow>
           current_bin (snd (fst (process g ctx input))) = current_bin ctx \<and>
           fft_in_fill (snd (fst (process g ctx input))) = fft_size"
proof -
  let ?c = "ctx\<lparr>silence_frames_count := count_silence (silence_frames_count ctx) input\<rparr>"
  have t: "fft_in (transform ?c) = apply_window (fft_in ctx)"
    "response (transform ?c) =
       (response ctx)[unat (current_bin ctx) :=
          fftwf_execute (apply_window (fft_in ctx)) ! unat (current_bin ctx)]"
    using transform_runs [of ?c] assms(3,4) by simp_all
  have same: "fft_in (snd (fst (process g ctx input))) = fft_in (transform ?c) \<and>
      response (snd (fst (process g ctx input))) = response (transform ?c)"
  proof (cases "count_silence (silence_frames_count ctx) input < silence_frames_needed ctx")
    case True
    show ?thesis by (simp add: process_wait [OF assms(1,2) _ True] assms(4))
  next
    case False
    show ?thesis by (simp add: process_advance [OF assms(1,2) _ False] assms(4))
  qed
  show "fft_in (snd (fst (process g ctx input))) = apply_window (fft_in ctx)"
    using same t by simp
  show "response (snd (fst (process g ctx input))) =
           (response ctx)[unat (current_bin ctx) :=
              fftwf_execute (apply_window (fft_in ctx)) ! unat (current_bin ctx)]"
    using same t by simp
  show "current_bin (snd (fst (process g ctx input))) = current_bin ctx \<and>
      fft_in_fill (snd (fst (process g ctx input))) = fft_size"
    if w: "count_silence (silence_frames_count ctx) input < silence_frames_needed ctx"
    by (simp add: process_wait [OF assms(1,2) _ w] assms(4) transform_fields)
qed

text \<open>
  Bin 0 has a full capture buffer holding a single pulse of height \<open>v\<close> at index 1, and the
  next buffer is one loud sample: the transform block runs and the gate stays closed.
\<close>

lemma pulse_transformed:
  assumes "measure_started g \<noteq> 0" and "current_bin ctx = 0" and "fft_in_fill ctx = fft_size"
    and "length (fft_in ctx) = 2048" and "length (response ctx) = 1025"
    and "silence_frames_needed ctx = 480"
    and "\<And>j. j < 2048 \<Longrightarrow> fft_in ctx ! j = (if j = 1 then v else 0)"
  defines "c \<equiv> snd (fst (process g ctx [1]))"
  shows "response c ! 0 = complex_of_real (v * window 1)"
    and "j < 2048 \<Longrightarrow> fft_in c ! j = (if j = 1 then v * window 1 else 0)"
    and "current_bin c = 0" and "fft_in_fill c = fft_size"
    and "length (fft_in c) = 2048" and "length (response c) = 1025"
    and "silence_frames_needed c = 480"
proof -
  have b: "current_bin ctx \<noteq> fft_nbins" "current_bin ctx \<noteq> no_bin"
    by (simp_all add: assms(2) fft_nbins_def fft_size_def no_bin_def)
  have cs: "count_silence (silence_frames_count ctx) [1] < silence_frames_needed ctx"
    by (simp add: silence_threshold_def assms(6))
  note f = process_at_full [OF assms(1) b assms(3), of "[1]"]
  have win: "apply_window (fft_in ctx) ! j = (if j = 1 then v * window 1 else 0)"
    if "j < 2048" for j
    using that by (simp add: apply_window_nth assms(4) assms(7))
  show "j < 2048 \<Longrightarrow> fft_in c ! j = (if j = 1 then v * window 1 else 0)"
    by (simp add: c_def f(1) win)
  have "fftwf_execute (apply_window (fft_in ctx)) ! 0 = complex_of_real (v * window 1)"
    unfolding fftwf_execute_dc by (simp only: pulse_dc [of "apply_window (fft_in ctx)", OF win])
  then show "response c ! 0 = complex_of_real (v * window 1)"
    by (simp add: c_def f(2) assms(2) assms(5))
  show "current_bin c = 0" and "fft_in_fill c = fft_size"
    using f(3) [OF cs] by (simp_all add: c_def assms(2))
  show "length (fft_in c) = 2048"
    by (simp add: c_def f(1) apply_window_length assms(4))
  show "length (response c) = 1025"
    by (simp add: c_def f(2) assms(5))
  show "silence_frames_needed c = 480"
    by (simp add: c_def process_needed assms(6))
qed

section \<open>Splitting a buffer during a capture\<close>

lemma record_input_count_update:
  "record_input (ctx\<lparr>silence_frames_count := k\<rparr>) xs =
     (record_input ctx xs)\<lparr>silence_frames_count := k\<rparr>"
proof (induction xs arbitrary: ctx)
  case Nil
  show ?case by simp
next
  case (Cons x xs)
  have "ctx\<lparr>silence_frames_count := k, fft_in := a, fft_in_fill := n\<rparr> =
      ctx\<lparr>fft_in := a, fft_in_fill := n, silence_frames_count := k\<rparr>" for a n
    by simp
  then show ?case by (simp only: record_input.simps Cons.IH) simp
qed

lemma record_input_phase_update:
  "record_input (ctx\<lparr>oscillator_phase := p\<rparr>) xs =
     (record_input ctx xs)\<lparr>oscillator_phase := p\<rparr>"
proof (induction xs arbitrary: ctx)
  case Nil
  show ?case by simp
next
  case (Cons x xs)
  have "ctx\<lparr>oscillator_phase := p, fft_in := a, fft_in_fill := n\<rparr> =
      ctx\<lparr>fft_in := a, fft_in_fill := n, oscillator_phase := p\<rparr>" for a n
    by simp
  then show ?case by (simp only: record_input.simps Cons.IH) simp
qed

lemma tone_append:
  "map (\<lambda>i. sin ((advance_phase f ^^ i) p)) [0..<m + n] =
     map (\<lambda>i. sin ((advance_phase f ^^ i) p)) [0..<m] @
     map (\<lambda>i. sin ((advance_phase f ^^ i) ((advance_phase f ^^ m) p))) [0..<n]"
proof -
  have a: "[0..<m + n] = [0..<m] @ [m..<m + n]"
    by (rule upt_add_eq_append) simp
  have b: "[m..<m + n] = map (\<lambda>i. i + m) [0..<n]"
    by (simp only: map_add_upt add.commute [of m n])
  have c: "(advance_phase f ^^ (i + m)) p = (advance_phase f ^^ i) ((advance_phase f ^^ m) p)" for i
    by (simp only: funpow_add o_apply)
  show ?thesis
    unfolding a b by (simp only: map_append map_map o_def c)
qed

lemma process_capture_split:
  assumes "measure_started g \<noteq> 0" and "current_bin ctx \<noteq> fft_nbins"
    and "current_bin ctx \<noteq> no_bin" and "unat (fft_in_fill ctx) + length xs < 2048"
  shows "fst (process g ctx (xs @ ys)) = fst (process g (snd (fst (process g ctx xs))) ys)"
    and "snd (process g ctx (xs @ ys)) =
           snd (process g ctx xs) @ snd (process g (snd (fst (process g ctx xs))) ys)"
    and "fst (fst (process g ctx xs)) = g"
    and "current_bin (snd (fst (process g ctx xs))) = current_bin ctx"
    and "unat (fft_in_fill (snd (fst (process g ctx xs)))) = unat (fft_in_fill ctx) + length xs"
proof -
  let ?f = "real (unat (current_bin ctx)) / real (unat fft_size)"
  let ?p = "oscillator_phase ctx"
  let ?k = "silence_frames_count ctx"
  have lt: "fft_in_fill ctx < fft_size"
    using assms(4) by (simp add: word_less_nat_alt unat_fft_size)
  then have le: "fft_in_fill ctx \<le> fft_size" by simp
  let ?c1 = "(record_input ctx xs)\<lparr>silence_frames_count := count_silence ?k xs,
      oscillator_phase := (advance_phase ?f ^^ length xs) ?p\<rparr>"
  have p1: "process g ctx xs =
      ((g, ?c1), map (\<lambda>i. sin ((advance_phase ?f ^^ i) ?p)) [0..<length xs])"
    by (simp add: process_capture [OF assms(1-3) lt] record_input_count_update
        record_input_phase_update)
  have p12: "process g ctx (xs @ ys) =
      ((g, (record_input ctx (xs @ ys))\<lparr>silence_frames_count := count_silence ?k (xs @ ys),
            oscillator_phase := (advance_phase ?f ^^ length (xs @ ys)) ?p\<rparr>),
       map (\<lambda>i. sin ((advance_phase ?f ^^ i) ?p)) [0..<length (xs @ ys)])"
    by (simp add: process_capture [OF assms(1-3) lt] record_input_count_update
        record_input_phase_update)
  have fill1: "unat (fft_in_fill ?c1) = unat (fft_in_fill ctx) + length xs"
    using record_input_fill [OF le, of xs] assms(4) by simp
  then have lt1: "fft_in_fill ?c1 < fft_size"
    using assms(4) by (simp add: word_less_nat_alt unat_fft_size)
  have b1: "current_bin ?c1 \<noteq> fft_nbins" "current_bin ?c1 \<noteq> no_bin"
    using assms(2,3) by (simp_all add: record_input_fields)
  have p2: "process g ?c1 ys =
      ((g, (record_input (record_input ctx xs) ys)
             \<lparr>silence_frames_count := count_silence (count_silence ?k xs) ys,
              oscillator_phase :=
                (advance_phase ?f ^^ length ys) ((advance_phase ?f ^^ length xs) ?p)\<rparr>),
       map (\<lambda>i. sin ((advance_phase ?f ^^ i) ((advance_phase ?f ^^ length xs) ?p)))
         [0..<length ys])"
    by (simp add: process_capture [OF assms(1) b1 lt1] record_input_count_update
        record_input_phase_update record_input_fields)
  have ph: "(advance_phase ?f ^^ length (xs @ ys)) ?p =
      (advance_phase ?f ^^ length ys) ((advance_phase ?f ^^ length xs) ?p)"
    by (simp only: length_append add.commute [of "length xs"] funpow_add o_apply)
  show "fst (process g ctx (xs @ ys)) = fst (process g (snd (fst (process g ctx xs))) ys)"
    unfolding p1 p12 fst_conv snd_conv p2
    by (simp only: record_input_append count_silence_append ph)
  show "snd (process g ctx (xs @ ys)) =
      snd (process g ctx xs) @ snd (process g (snd (fst (process g ctx xs))) ys)"
    unfolding p1 p12 fst_conv snd_conv p2
    by (simp only: length_append tone_append)
  show "fst (fst (process g ctx xs)) = g" by (simp add: p1)
  show "current_bin (snd (fst (process g ctx xs))) = current_bin ctx"
    by (simp add: p1 record_input_fields)
  show "unat (fft_in_fill (snd (fst (process g ctx xs)))) = unat (fft_in_fill ctx) + length xs"
    unfolding p1 fst_conv snd_conv by (rule fill1)
qed

text \<open>
  While the samples fit in the free part of the capture buffer, a sequence of non-empty
  buffers does what one invocation on their concatenation does.
\<close>

lemma capture_run_concat:
  assumes "measure_started g \<noteq> 0" and "current_bin ctx \<noteq> fft_nbins"
    and "current_bin ctx \<noteq> no_bin"
    and "unat (fft_in_fill ctx) + length (concat bs) \<le> 2048"
    and "[] \<notin> set bs" and "bs \<noteq> []"
  shows "fst (run g ctx bs) = fst (process g ctx (concat bs)) \<and>
         concat (snd (run g ctx bs)) = snd (process g ctx (concat bs))"
  using assms
proof (induction bs arbitrary: ctx)
  case Nil
  then show ?case by simp
next
  case (Cons b bs)
  show ?case
  proof (cases "bs = []")
    case True
    then show ?thesis by (simp add: Let_def)
  next
    case False
    obtain b' bs' where bs: "bs = b' # bs'" using False by (cases bs) auto
    then have "b' \<noteq> []" using Cons.prems(5) by auto
    define n where "n = length (concat bs)"
    have "0 < length b'" using \<open>b' \<noteq> []\<close> by simp
    then have "0 < n" by (simp add: n_def bs)
    moreover have "unat (fft_in_fill ctx) + (length b + n) \<le> 2048"
      using Cons.prems(4) by (simp add: n_def)
    ultimately have room: "unat (fft_in_fill ctx) + length b < 2048" by linarith
    note s = process_capture_split [OF Cons.prems(1-3) room]
    let ?c = "snd (fst (process g ctx b))"
    have ih: "fst (run g ?c bs) = fst (process g ?c (concat bs)) \<and>
        concat (snd (run g ?c bs)) = snd (process g ?c (concat bs))"
    proof (rule Cons.IH [OF Cons.prems(1)])
      show "current_bin ?c \<noteq> fft_nbins" "current_bin ?c \<noteq> no_bin"
        using Cons.prems(2,3) by (simp_all add: s(4))
      show "unat (fft_in_fill ?c) + length (concat bs) \<le> 2048"
        using Cons.prems(4) by (simp add: s(5))
      show "[] \<notin> set bs" using Cons.prems(5) by simp
      show "bs \<noteq> []" by (rule False)
    qed
    have r: "run g ctx (b # bs) = (fst (run g ?c bs), snd (process g ctx b) # snd (run g ?c bs))"
      by (simp add: Let_def s(3))
    have "fst (run g ctx (b # bs)) = fst (process g ctx (b @ concat bs))"
      unfolding r fst_conv s(1) using ih by simp
    moreover have "concat (snd (run g ctx (b # bs))) = snd (process g ctx (b @ concat bs))"
      unfolding r snd_conv s(2) using ih by simp
    ultimately show ?thesis by simp
  qed
qed

lemma run_append:
  "fst (run g ctx (as @ bs)) = fst (run (fst (fst (run g ctx as))) (snd (fst (run g ctx as))) bs)"
  by (induction as arbitrary: g ctx) (simp_all add: Let_def)

section \<open>A pulse in the capture buffer\<close>

text \<open>The response slot of bin 0 after the transform of a pulse, whatever the next buffer.\<close>

lemma pulse_response:
  assumes "measure_started g \<noteq> 0" and "current_bin ctx = 0" and "fft_in_fill ctx = fft_size"
    and "length (fft_in ctx) = 2048" and "length (response ctx) = 1025"
    and "\<And>j. j < 2048 \<Longrightarrow> fft_in ctx ! j = (if j = 1 then v else 0)"
  shows "response (snd (fst (process g ctx input))) ! 0 = complex_of_real (v * window 1)"
proof -
  have b: "current_bin ctx \<noteq> fft_nbins" "current_bin ctx \<noteq> no_bin"
    by (simp_all add: assms(2) fft_nbins_def fft_size_def no_bin_def)
  note f = process_at_full [OF assms(1) b assms(3), of input]
  have win: "apply_window (fft_in ctx) ! j = (if j = 1 then v * window 1 else 0)"
    if "j < 2048" for j
    using that by (simp add: apply_window_nth assms(4) assms(6))
  have "fftwf_execute (apply_window (fft_in ctx)) ! 0 = complex_of_real (v * window 1)"
    unfolding fftwf_execute_dc by (simp only: pulse_dc [of "apply_window (fft_in ctx)", OF win])
  then show ?thesis
    by (simp add: f(2) assms(2) assms(5))
qed

section \<open>When the response table changes\<close>

text \<open>
  An invocation changes the response table only with a bin selected and the capture
  buffer holding \<^verbatim>\<open>fft_size\<close> samples.
\<close>

lemma response_stored_only_when_full:
  assumes "response (snd (fst (process g ctx input))) \<noteq> response ctx"
  shows "measure_started g \<noteq> 0 \<and> current_bin ctx \<noteq> no_bin \<and>
         current_bin ctx \<noteq> fft_nbins \<and> fft_in_fill ctx = fft_size"
proof -
  let ?c = "ctx\<lparr>silence_frames_count := count_silence (silence_frames_count ctx) input\<rparr>"
  have skip: "response (transform ?c) = response ctx"
    if "current_bin ctx = no_bin \<or> fft_in_fill ctx \<noteq> fft_size"
    using that transform_skips [of ?c] by auto
  show ?thesis
  proof (cases rule: process_cases [where g = g and ctx = ctx and b = input])
    case idle
    then show ?thesis using assms by (simp add: process_def)
  next
    case finished
    then show ?thesis using assms by (simp add: process_done)
  next
    case wait
    then show ?thesis using assms skip by (auto simp add: process_wait)
  next
    case advance
    then show ?thesis using assms skip by (auto simp add: process_advance)
  next
    case capture
    then show ?thesis using assms by (simp add: process_capture record_input_fields)
  next
    case over
    then show ?thesis using assms by (simp add: process_over)
  qed
qed

lemma gate_opens:
  assumes "measure_started g \<noteq> 0" and "current_bin ctx \<noteq> fft_nbins"
    and "current_bin ctx = no_bin \<or> fft_in_fill ctx = fft_size"
    and "silence_frames_needed ctx \<le> count_silence (silence_frames_count ctx) input"
  shows "current_bin (snd (fst (process g ctx input))) = current_bin ctx + 1"
proof -
  have "\<not> count_silence (silence_frames_count ctx) input < silence_frames_needed ctx"
    using assms(4) by (simp add: not_less)
  from process_advance [OF assms(1-3) this] show ?thesis by simp
qed

section \<open>The phase in closed form\<close>

lemma normalized_step_frac: "normalized_step f p = frac (p + f)"
  by (simp add: normalized_step_def frac_def Let_def)

lemma normalized_funpow_frac_from:
  "(normalized_step f ^^ Suc n) p = frac (p + real (Suc n) * f)"
proof (induction n)
  case 0
  show ?case by (simp add: normalized_step_frac)
next
  case (Suc n)
  have "(normalized_step f ^^ Suc (Suc n)) p = normalized_step f (frac (p + real (Suc n) * f))"
    by (simp only: funpow.simps(2) [of "Suc n"] o_apply Suc)
  also have "\<dots> = frac (p + real (Suc n) * f + f)"
    by (simp only: normalized_step_frac frac_add_simps)
  also have "p + real (Suc n) * f + f = p + real (Suc (Suc n)) * f"
    by (simp add: algebra_simps)
  finally show ?case .
qed

lemma normalized_funpow_frac: "(normalized_step f ^^ n) 0 = frac (real n * f)"
proof (cases n)
  case 0
  then show ?thesis by simp
next
  case (Suc k)
  then show ?thesis using normalized_funpow_frac_from [where f = f and n = k and p = 0] by simp
qed

lemma advance_funpow_frac:
  "0 \<le> f \<Longrightarrow> (advance_phase f ^^ n) 0 = frac (real n * f)"
  using advance_phase_funpow [of 0 f n] by (simp add: normalized_funpow_frac)

text \<open>Only the start flag of the globals is read.\<close>

lemma process_any_started:
  assumes "measure_started g \<noteq> 0" and "measure_started g' \<noteq> 0"
  shows "snd (fst (process g ctx b)) = snd (fst (process g' ctx b))"
    and "snd (process g ctx b) = snd (process g' ctx b)"
proof -
  have "snd (fst (process g ctx b)) = snd (fst (process g' ctx b)) \<and>
      snd (process g ctx b) = snd (process g' ctx b)"
  proof (cases rule: process_cases [where g = g and ctx = ctx and b = b])
    case idle
    then show ?thesis using assms by simp
  next
    case finished
    then show ?thesis using assms by (simp add: process_done)
  next
    case wait
    then show ?thesis using assms by (simp add: process_wait)
  next
    case advance
    then show ?thesis using assms by (simp add: process_advance)
  next
    case capture
    then show ?thesis using assms by (simp add: process_capture)
  next
    case over
    then show ?thesis using assms by (simp add: process_over)
  qed
  then show "snd (fst (process g ctx b)) = snd (fst (process g' ctx b))"
    and "snd (process g ctx b) = snd (process g' ctx b)"
    by simp_all
qed

lemma ctx_after_snoc_started:
  "measure_started g \<noteq> 0 \<Longrightarrow>
   ctx_after g ctx (bs @ [b]) = snd (fst (process g (ctx_after g ctx bs) b))"
  unfolding ctx_after_snoc
  by (rule process_any_started(1)) (simp_all add: run_started)

section \<open>Before the start signal\<close>

text \<open>
  C9. While \<^verbatim>\<open>measure_started\<close> is still 0, an invocation returns a zeroed output buffer
  of the length of the input and leaves the globals and every field of the context as
  they were.
\<close>

theorem process_not_started:
  "process (g\<lparr>measure_started := 0\<rparr>) ctx input =
     ((g\<lparr>measure_started := 0\<rparr>, ctx), replicate (length input) 0)"
  by (simp add: process_def)

section \<open>Tone synthesis\<close>

text \<open>
  C7. Take any context reached from the setup of \<^verbatim>\<open>main\<close> and an invocation that excites a
  bin: either the silence gate lets the sweep move to the next bin, or a bin is selected
  and its capture buffer is not full. Then the output buffer is \<open>sin\<close> of the successive
  phases, the phase moves by \<open>phase += bin/N\<close>, \<open>phase -= floor(phase)\<close> for the bin being
  excited after the call, starting from 0 at a bin change and from the stored phase
  otherwise, and every phase lies in the interval from 0 (included) to 1 (excluded).
\<close>

theorem tone_follows_normalized_phase:
  assumes "measure_started g \<noteq> 0"
    and "ctx = ctx_after g0 (main_setup mem_in mem_out sample_rate) bs"
    and "current_bin ctx \<noteq> fft_nbins"
    and "(current_bin ctx = no_bin \<or> fft_in_fill ctx = fft_size) \<and>
           silence_frames_needed ctx \<le> count_silence (silence_frames_count ctx) input
         \<or> current_bin ctx \<noteq> no_bin \<and> fft_in_fill ctx < fft_size"
  shows "let r = process g ctx input;
             ctx' = snd (fst r);
             f = real (unat (current_bin ctx')) / real (unat fft_size);
             p0 = (if current_bin ctx = no_bin \<or> fft_in_fill ctx = fft_size then 0
                   else oscillator_phase ctx)
         in snd r = map (\<lambda>i. sin ((normalized_step f ^^ i) p0)) [0..<length input] \<and>
            oscillator_phase ctx' = (normalized_step f ^^ length input) p0 \<and>
            (\<forall>i. 0 \<le> (normalized_step f ^^ i) p0 \<and> (normalized_step f ^^ i) p0 < 1)"
proof -
  have ph: "0 \<le> oscillator_phase ctx \<and> oscillator_phase ctx < 1"
    unfolding assms(2) by (rule reachable_phase_range)
  from assms(4) show ?thesis
  proof
    assume a: "(current_bin ctx = no_bin \<or> fft_in_fill ctx = fft_size) \<and>
           silence_frames_needed ctx \<le> count_silence (silence_frames_count ctx) input"
    then have gate: "\<not> count_silence (silence_frames_count ctx) input < silence_frames_needed ctx"
      by (simp add: not_less)
    let ?f = "real (unat (current_bin ctx + 1)) / real (unat fft_size)"
    have eq: "(advance_phase ?f ^^ n) 0 = (normalized_step ?f ^^ n) 0 \<and>
          0 \<le> (normalized_step ?f ^^ n) 0 \<and> (normalized_step ?f ^^ n) 0 < 1" for n
      by (rule advance_phase_funpow [OF _ _ freq_nonneg]) simp_all
    have p: "process g ctx input =
      ((g, (transform (ctx\<lparr>silence_frames_count := count_silence (silence_frames_count ctx) input\<rparr>))
             \<lparr>current_bin := current_bin ctx + 1, fft_in_fill := 0,
              oscillator_phase := (normalized_step ?f ^^ length input) 0\<rparr>),
       map (\<lambda>i. sin ((normalized_step ?f ^^ i) 0)) [0..<length input])"
      using process_advance [OF assms(1) assms(3) conjunct1 [OF a] gate]
      by (simp only: eq)
    show ?thesis
      unfolding p Let_def using a eq by auto
  next
    assume a: "current_bin ctx \<noteq> no_bin \<and> fft_in_fill ctx < fft_size"
    then have ne: "fft_in_fill ctx \<noteq> fft_size" by auto
    let ?f = "real (unat (current_bin ctx)) / real (unat fft_size)"
    let ?p = "oscillator_phase ctx"
    have eq: "(advance_phase ?f ^^ n) ?p = (normalized_step ?f ^^ n) ?p \<and>
          0 \<le> (normalized_step ?f ^^ n) ?p \<and> (normalized_step ?f ^^ n) ?p < 1" for n
      using ph by (intro advance_phase_funpow [OF _ _ freq_nonneg]) simp_all
    have bin: "current_bin (record_input c xs) = current_bin c" for c xs
      by (induction c xs rule: record_input.induct) simp_all
    have p: "process g ctx input =
      ((g, record_input
           (ctx\<lparr>silence_frames_count := count_silence (silence_frames_count ctx) input,
                oscillator_phase := (normalized_step ?f ^^ length input) ?p\<rparr>) input),
       map (\<lambda>i. sin ((normalized_step ?f ^^ i) ?p)) [0..<length input])"
      using process_capture [OF assms(1) assms(3) conjunct1 [OF a] conjunct2 [OF a], of input]
      by (simp only: eq)
    show ?thesis
      unfolding p Let_def using a ne eq by (simp add: bin record_input_phase)
  qed
qed

theorem tone_follows_normalized_phase_witness:
  "measure_started \<lparr>measure_started = 1, measure_finished = 0\<rparr> \<noteq> 0 \<and>
   current_bin (ctx_after \<lparr>measure_started = 1, measure_finished = 0\<rparr>
     (main_setup (\<lambda>i. 0) (\<lambda>i. 0) 48000) [replicate 480 0, replicate 2048 0]) = 0 \<and>
   fft_in_fill (ctx_after \<lparr>measure_started = 1, measure_finished = 0\<rparr>
     (main_setup (\<lambda>i. 0) (\<lambda>i. 0) 48000) [replicate 480 0, replicate 2048 0]) = fft_size \<and>
   current_bin (ctx_after \<lparr>measure_started = 1, measure_finished = 0\<rparr>
     (main_setup (\<lambda>i. 0) (\<lambda>i. 0) 48000)
     [replicate 480 0, replicate 2048 0, replicate 2049 0]) = 1 \<and>
   fft_in_fill (ctx_after \<lparr>measure_started = 1, measure_finished = 0\<rparr>
     (main_setup (\<lambda>i. 0) (\<lambda>i. 0) 48000)
     [replicate 480 0, replicate 2048 0, replicate 2049 0]) = 0 \<and>
   snd (process \<lparr>measure_started = 1, measure_finished = 0\<rparr>
     (ctx_after \<lparr>measure_started = 1, measure_finished = 0\<rparr>
       (main_setup (\<lambda>i. 0) (\<lambda>i. 0) 48000) [replicate 480 0, replicate 2048 0])
     (replicate 2049 0)) = map (\<lambda>i. sin (frac (real i / 2048))) [0..<2049] \<and>
   oscillator_phase (ctx_after \<lparr>measure_started = 1, measure_finished = 0\<rparr>
     (main_setup (\<lambda>i. 0) (\<lambda>i. 0) 48000)
     [replicate 480 0, replicate 2048 0, replicate 2049 0]) = 1 / 2048 \<and>
   snd (process \<lparr>measure_started = 1, measure_finished = 0\<rparr>
     (ctx_after \<lparr>measure_started = 1, measure_finished = 0\<rparr>
       (main_setup (\<lambda>i. 0) (\<lambda>i. 0) 48000)
       [replicate 480 0, replicate 2048 0, replicate 2049 0])
     [1 / 2, 1 / 4]) = [sin (1 / 2048), sin (1 / 1024)] \<and>
   oscillator_phase (snd (fst (process \<lparr>measure_started = 1, measure_finished = 0\<rparr>
     (ctx_after \<lparr>measure_started = 1, measure_finished = 0\<rparr>
       (main_setup (\<lambda>i. 0) (\<lambda>i. 0) 48000)
       [replicate 480 0, replicate 2048 0, replicate 2049 0])
     [1 / 2, 1 / 4]))) = 3 / 2048 \<and>
   0 < sin (1 / 2048 :: real)"
proof -
  let ?g = "\<lparr>measure_started = 1, measure_finished = 0\<rparr>"
  let ?m = "main_setup (\<lambda>i. 0) (\<lambda>i. 0) 48000"
  let ?z = "replicate 2048 (0 :: real)"
  let ?c2 = "ctx_after ?g ?m [replicate 480 0, ?z]"
  let ?c3 = "ctx_after ?g ?m [replicate 480 0, ?z, replicate 2049 0]"
  have h1: "measure_started ?g \<noteq> 0" by simp
  have q: "count_silence c (replicate n 0) = c + of_nat n" for c n
    by (simp add: count_silence_quiet silence_threshold_def)
  \<comment> \<open>bin 0 is captured; the gate opens to bin 1\<close>
  note c2 = bin0_captured [OF h1, of 480 ?z "\<lambda>i. 0" "\<lambda>i. 0"]
  have b2: "current_bin ?c2 = 0" and f2: "fft_in_fill ?c2 = fft_size"
    and n2: "silence_frames_needed ?c2 = 480" and k2: "silence_frames_count ?c2 = 2528"
    using c2 by (simp_all add: q)
  have ne2: "current_bin ?c2 \<noteq> fft_nbins" by (simp add: b2 fft_nbins_def fft_size_def)
  have gate2: "silence_frames_needed ?c2 \<le> count_silence (silence_frames_count ?c2) (replicate 2049 0)"
    by (simp add: n2 k2 q)
  have e3: "?c3 = snd (fst (process ?g ?c2 (replicate 2049 0)))"
    using ctx_after_snoc_started [OF h1, of ?m "[replicate 480 0, ?z]" "replicate 2049 0"]
    by simp
  have b3: "current_bin ?c3 = 1"
    unfolding e3 using gate_opens [OF h1 ne2 _ gate2] by (simp add: f2 b2)
  have i1: "(current_bin ?c2 = no_bin \<or> fft_in_fill ?c2 = fft_size) \<and>
      silence_frames_needed ?c2 \<le> count_silence (silence_frames_count ?c2) (replicate 2049 0)
      \<or> current_bin ?c2 \<noteq> no_bin \<and> fft_in_fill ?c2 < fft_size"
    using f2 gate2 by simp
  note t1 = tone_follows_normalized_phase [OF h1 refl ne2 i1, unfolded Let_def, folded e3]
  have fr1: "(normalized_step (1 / 2048) ^^ i) 0 = frac (real i / 2048)" for i
    by (simp add: normalized_funpow_frac)
  have out1: "snd (process ?g ?c2 (replicate 2049 0)) =
      map (\<lambda>i. sin (frac (real i / 2048))) [0..<2049]"
    using t1 by (simp add: b3 f2 unat_fft_size fr1)
  have "frac (2049 / 2048 :: real) = 1 / 2048"
    by (rule frac_unique_iff [THEN iffD2]) simp
  then have p3: "oscillator_phase ?c3 = 1 / 2048"
    using t1 by (simp add: b3 f2 unat_fft_size fr1)
  \<comment> \<open>the next invocation captures and goes on with the tone of bin 1\<close>
  have f3: "fft_in_fill ?c3 = 0"
    unfolding e3 using process_bin_changes [of ?g ?c2 "replicate 2049 0"] b3 [unfolded e3] b2
      process_advance [OF h1 ne2, of "replicate 2049 0"] gate2
    by (simp add: f2 not_less [symmetric])
  have ne3: "current_bin ?c3 \<noteq> fft_nbins" by (simp add: b3 fft_nbins_def fft_size_def)
  have i2: "(current_bin ?c3 = no_bin \<or> fft_in_fill ?c3 = fft_size) \<and>
      silence_frames_needed ?c3 \<le> count_silence (silence_frames_count ?c3) [1 / 2, 1 / 4]
      \<or> current_bin ?c3 \<noteq> no_bin \<and> fft_in_fill ?c3 < fft_size"
    by (simp add: b3 f3 no_bin_def fft_size_def)
  note t2 = tone_follows_normalized_phase [OF h1 refl ne3 i2, unfolded Let_def]
  have bin4: "current_bin (snd (fst (process ?g ?c3 [1 / 2, 1 / 4]))) = 1"
  proof (rule ccontr)
    assume "current_bin (snd (fst (process ?g ?c3 [1 / 2, 1 / 4]))) \<noteq> 1"
    then have "current_bin (snd (fst (process ?g ?c3 [1 / 2, 1 / 4]))) \<noteq> current_bin ?c3"
      by (simp add: b3)
    from process_bin_changes(3) [OF this] show False
      by (simp add: b3 f3 no_bin_def fft_size_def)
  qed
  have s1: "normalized_step (1 / 2048) (1 / 2048) = 1 / 1024"
    unfolding normalized_step_frac by (rule frac_unique_iff [THEN iffD2]) simp
  have s2: "normalized_step (1 / 2048) (1 / 1024) = 3 / 2048"
    unfolding normalized_step_frac by (rule frac_unique_iff [THEN iffD2]) simp
  have nb1: "no_bin \<noteq> 1" by (simp add: no_bin_def)
  have out2: "snd (process ?g ?c3 [1 / 2, 1 / 4]) = [sin (1 / 2048), sin (1 / 1024)]"
    using t2 by (simp add: bin4 b3 f3 fft_size_def p3 nb1 s1)
  have p4: "oscillator_phase (snd (fst (process ?g ?c3 [1 / 2, 1 / 4]))) = 3 / 2048"
    using t2 by (simp add: bin4 b3 f3 fft_size_def p3 nb1 s1 s2)
  have "(1 / 2048 :: real) < pi" using pi_ge_two by simp
  then have pos: "0 < sin (1 / 2048 :: real)" by (intro sin_gt_zero) simp_all
  show ?thesis
    using h1 b2 f2 b3 f3 out1 p3 out2 p4 pos by simp
qed

section \<open>The window\<close>

text \<open>
  C8. In every context reachable from \<^verbatim>\<open>main\<close> with a bin selected and its capture buffer
  full, the invocation multiplies sample \<open>i\<close> of the capture buffer, for every \<open>i\<close> from 0
  to \<open>N - 1\<close>, by \<open>0.42 - 0.5 cos(2 pi i/(N-1)) + 0.08 cos(4 pi i/(N-1))\<close>, in place; the
  transform output is the transform of that windowed buffer, and the response slot of the
  bin is its coefficient there.
\<close>

theorem window_applied_before_transform:
  assumes "measure_started g \<noteq> 0"
    and "ctx = ctx_after g0 (main_setup mem_in mem_out sample_rate) bs"
    and "current_bin ctx \<noteq> fft_nbins" and "current_bin ctx \<noteq> no_bin"
    and "fft_in_fill ctx = fft_size"
  shows "let ctx' = snd (fst (process g ctx input)) in
     length (fft_in ctx') = 2048 \<and>
     (\<forall>i<2048. fft_in ctx' ! i =
        fft_in ctx ! i *
          (0.42 - 0.5 * cos (2 * pi * real i / 2047) + 0.08 * cos (4 * pi * real i / 2047))) \<and>
     fft_out ctx' = fftwf_execute (fft_in ctx') \<and>
     response ctx' ! unat (current_bin ctx) = fftwf_execute (fft_in ctx') ! unat (current_bin ctx)"
proof -
  let ?c = "ctx\<lparr>silence_frames_count := count_silence (silence_frames_count ctx) input\<rparr>"
  have ok: "context_ok ctx" unfolding assms(2) by (rule reachable_ok)
  then have len: "length (fft_in ctx) = 2048" and rlen: "length (response ctx) = 1025"
    and "current_bin ctx \<le> fft_nbins"
    using assms(4) by (simp_all add: context_ok_def)
  then have bin: "unat (current_bin ctx) < 1025"
    using bin_step(3) assms(3) by blast
  have t: "fft_in (transform ?c) = apply_window (fft_in ctx)"
    "fft_out (transform ?c) = fftwf_execute (apply_window (fft_in ctx))"
    "response (transform ?c) =
       (response ctx)[unat (current_bin ctx) :=
          fftwf_execute (apply_window (fft_in ctx)) ! unat (current_bin ctx)]"
    using transform_runs [of ?c] assms(4,5) by simp_all
  have same: "fft_in (snd (fst (process g ctx input))) = fft_in (transform ?c) \<and>
      fft_out (snd (fst (process g ctx input))) = fft_out (transform ?c) \<and>
      response (snd (fst (process g ctx input))) = response (transform ?c)"
  proof (cases "count_silence (silence_frames_count ctx) input < silence_frames_needed ctx")
    case True
    show ?thesis
      by (simp add: process_wait [OF assms(1,3) _ True] assms(5))
  next
    case False
    show ?thesis
      by (simp add: process_advance [OF assms(1,3) _ False] assms(5))
  qed
  have nth: "apply_window (fft_in ctx) ! i =
      fft_in ctx ! i *
        (0.42 - 0.5 * cos (2 * pi * real i / 2047) + 0.08 * cos (4 * pi * real i / 2047))"
    if "i < 2048" for i
    using that by (simp add: apply_window_nth len window_formula)
  show ?thesis
    unfolding Let_def
    using same nth bin by (simp add: t apply_window_length len rlen)
qed

theorem window_applied_before_transform_witness:
  "measure_started \<lparr>measure_started = 1, measure_finished = 0\<rparr> \<noteq> 0 \<and>
   current_bin (ctx_after \<lparr>measure_started = 1, measure_finished = 0\<rparr>
     (main_setup (\<lambda>i. 0) (\<lambda>i. 0) 48000) [replicate 480 0, replicate 2048 1]) = 0 \<and>
   fft_in_fill (ctx_after \<lparr>measure_started = 1, measure_finished = 0\<rparr>
     (main_setup (\<lambda>i. 0) (\<lambda>i. 0) 48000) [replicate 480 0, replicate 2048 1]) = fft_size \<and>
   fft_in (ctx_after \<lparr>measure_started = 1, measure_finished = 0\<rparr>
     (main_setup (\<lambda>i. 0) (\<lambda>i. 0) 48000) [replicate 480 0, replicate 2048 1, [1]]) ! 1 =
     0.42 - 0.5 * cos (2 * pi / 2047) + 0.08 * cos (4 * pi / 2047)"
proof -
  let ?g = "\<lparr>measure_started = 1, measure_finished = 0\<rparr>"
  let ?m = "main_setup (\<lambda>i. 0) (\<lambda>i. 0) 48000"
  let ?c = "ctx_after ?g ?m [replicate 480 0, replicate 2048 1]"
  have h1: "measure_started ?g \<noteq> 0" by simp
  have g2: "measure_started (fst (fst (run ?g ?m [replicate 480 0, replicate 2048 1]))) \<noteq> 0"
    by (simp only: run_started) simp
  note b = bin0_captured [OF h1, of 480 "replicate 2048 1" "\<lambda>i. 0" "\<lambda>i. 0"]
  have bin: "current_bin ?c = 0" and fill: "fft_in_fill ?c = fft_size"
    and buf: "fft_in ?c = replicate 2048 1"
    using b by simp_all
  have h3: "current_bin ?c \<noteq> fft_nbins" by (simp add: bin fft_nbins_def fft_size_def)
  have h4: "current_bin ?c \<noteq> no_bin" by (simp add: bin no_bin_def)
  have snoc: "ctx_after ?g ?m ([replicate 480 0, replicate 2048 1] @ [[1]]) =
      snd (fst (process (fst (fst (run ?g ?m [replicate 480 0, replicate 2048 1]))) ?c [1]))"
    by (rule ctx_after_snoc)
  from window_applied_before_transform [OF g2 refl h3 h4 fill, of "[1]"]
  have "fft_in (ctx_after ?g ?m ([replicate 480 0, replicate 2048 1] @ [[1]])) ! 1 =
      fft_in ?c ! 1 * (0.42 - 0.5 * cos (2 * pi * real 1 / 2047) + 0.08 * cos (4 * pi * real 1 / 2047))"
    unfolding snoc Let_def by simp
  then show ?thesis
    using bin fill by (simp add: buf)
qed

section \<open>The invocation that changes the bin\<close>

text \<open>
  C10. Take a context reachable from \<^verbatim>\<open>main\<close> and an invocation after which the bin index
  differs, the step from the sentinel to bin 0 included. The bin has moved by one, the
  fill count is 0 and the capture buffer is what it was (windowed, when the transform ran):
  none of the input samples is in it. The output of that same invocation is already the
  tone of the new bin \<open>b\<close>: sample \<open>i\<close> is the sine of the fractional part of \<open>i * b / N\<close>.
  When the new bin is not \<^verbatim>\<open>fft_nbins\<close>, the next invocation stores its first input
  samples at the start of the capture buffer.
\<close>

theorem bin_change_captures_nothing:
  assumes "ctx = ctx_after g0 (main_setup mem_in mem_out sample_rate) bs"
    and "current_bin (snd (fst (process g ctx input))) \<noteq> current_bin ctx"
  shows "let r = process g ctx input;
             ctx' = snd (fst r);
             b = real (unat (current_bin ctx'));
             ctx'' = snd (fst (process g ctx' input2));
             n = min 2048 (length input2)
         in current_bin ctx' = current_bin ctx + 1 \<and>
            fft_in_fill ctx' = 0 \<and>
            fft_in ctx' =
              (if current_bin ctx = no_bin then fft_in ctx else apply_window (fft_in ctx)) \<and>
            snd r = map (\<lambda>i. sin (frac (real i * b / 2048))) [0..<length input] \<and>
            (current_bin ctx' \<noteq> fft_nbins \<longrightarrow>
               unat (fft_in_fill ctx'') = n \<and> take n (fft_in ctx'') = take n input2)"
proof -
  note c = process_bin_changes [OF assms(2)]
  let ?t = "transform (ctx\<lparr>silence_frames_count := count_silence (silence_frames_count ctx) input\<rparr>)"
  let ?f = "real (unat (current_bin ctx + 1)) / real (unat fft_size)"
  let ?c' = "?t\<lparr>current_bin := current_bin ctx + 1, fft_in_fill := 0,
      oscillator_phase := (advance_phase ?f ^^ length input) 0\<rparr>"
  have p: "process g ctx input =
      ((g, ?c'), map (\<lambda>i. sin ((advance_phase ?f ^^ i) 0)) [0..<length input])"
    by (rule process_advance [OF c])
  have ok: "context_ok ctx" unfolding assms(1) by (rule reachable_ok)
  have tone: "(advance_phase ?f ^^ i) 0 = frac (real i * real (unat (current_bin ctx + 1)) / 2048)"
    for i
    using advance_funpow_frac [OF freq_nonneg [of "current_bin ctx + 1"], of i]
    by (simp add: unat_fft_size)
  have buf: "fft_in ?t =
      (if current_bin ctx = no_bin then fft_in ctx else apply_window (fft_in ctx))"
    using c(3) by (auto simp add: transform_def Let_def)
  have len: "length (fft_in ?c') = 2048"
    using ok by (simp add: transform_fields context_ok_def)
  have nb: "current_bin ?c' \<noteq> no_bin"
  proof
    assume "current_bin ?c' = no_bin"
    then have "current_bin ctx + 1 = - 1" by (simp add: no_bin_def)
    then have "current_bin ctx = - 2" by (simp add: eq_diff_eq [symmetric])
    then show False
      using ok c(2) by (auto simp add: context_ok_def no_bin_def fft_nbins_def fft_size_def)
  qed
  have next_call: "unat (fft_in_fill (snd (fst (process g ?c' input2)))) = min 2048 (length input2) \<and>
      take (min 2048 (length input2)) (fft_in (snd (fst (process g ?c' input2)))) =
      take (min 2048 (length input2)) input2"
    if ne: "current_bin ?c' \<noteq> fft_nbins"
  proof -
    let ?d = "?c'\<lparr>silence_frames_count := count_silence (silence_frames_count ?c') input2,
        oscillator_phase :=
          (advance_phase (real (unat (current_bin ?c')) / real (unat fft_size)) ^^ length input2)
            (oscillator_phase ?c')\<rparr>"
    have lt: "fft_in_fill ?c' < fft_size" by (simp add: fft_size_def)
    have q: "snd (fst (process g ?c' input2)) = record_input ?d input2"
      by (simp add: process_capture [OF c(1) ne nb lt])
    have le: "fft_in_fill ?d \<le> fft_size" by simp
    have dlen: "length (fft_in ?d) = 2048" using len by simp
    show ?thesis
      unfolding q
      using record_input_fill [OF le, of input2] record_input_buffer [OF le dlen, of input2]
      by simp
  qed
  show ?thesis
    unfolding p Let_def using buf next_call by (simp add: tone)
qed

theorem bin_change_captures_nothing_witness:
  "current_bin (ctx_after \<lparr>measure_started = 1, measure_finished = 0\<rparr>
     (main_setup (\<lambda>i. 0) (\<lambda>i. 0) 48000) [replicate 480 0, 0 # 1 # replicate 2046 0]) = 0 \<and>
   current_bin (snd (fst (process \<lparr>measure_started = 1, measure_finished = 0\<rparr>
     (ctx_after \<lparr>measure_started = 1, measure_finished = 0\<rparr>
       (main_setup (\<lambda>i. 0) (\<lambda>i. 0) 48000) [replicate 480 0, 0 # 1 # replicate 2046 0])
     (replicate 480 0)))) = 1 \<and>
   fft_in_fill (snd (fst (process \<lparr>measure_started = 1, measure_finished = 0\<rparr>
     (ctx_after \<lparr>measure_started = 1, measure_finished = 0\<rparr>
       (main_setup (\<lambda>i. 0) (\<lambda>i. 0) 48000) [replicate 480 0, 0 # 1 # replicate 2046 0])
     (replicate 480 0)))) = 0 \<and>
   fft_in (snd (fst (process \<lparr>measure_started = 1, measure_finished = 0\<rparr>
     (ctx_after \<lparr>measure_started = 1, measure_finished = 0\<rparr>
       (main_setup (\<lambda>i. 0) (\<lambda>i. 0) 48000) [replicate 480 0, 0 # 1 # replicate 2046 0])
     (replicate 480 0)))) = apply_window (0 # 1 # replicate 2046 0) \<and>
   snd (process \<lparr>measure_started = 1, measure_finished = 0\<rparr>
     (ctx_after \<lparr>measure_started = 1, measure_finished = 0\<rparr>
       (main_setup (\<lambda>i. 0) (\<lambda>i. 0) 48000) [replicate 480 0, 0 # 1 # replicate 2046 0])
     (replicate 480 0)) = map (\<lambda>i. sin (frac (real i / 2048))) [0..<480] \<and>
   snd (process \<lparr>measure_started = 1, measure_finished = 0\<rparr>
     (ctx_after \<lparr>measure_started = 1, measure_finished = 0\<rparr>
       (main_setup (\<lambda>i. 0) (\<lambda>i. 0) 48000) [replicate 480 0, 0 # 1 # replicate 2046 0])
     (replicate 480 0)) ! 1 = sin (1 / 2048) \<and>
   0 < sin (1 / 2048 :: real) \<and>
   unat (fft_in_fill (snd (fst (process \<lparr>measure_started = 1, measure_finished = 0\<rparr>
     (snd (fst (process \<lparr>measure_started = 1, measure_finished = 0\<rparr>
       (ctx_after \<lparr>measure_started = 1, measure_finished = 0\<rparr>
         (main_setup (\<lambda>i. 0) (\<lambda>i. 0) 48000) [replicate 480 0, 0 # 1 # replicate 2046 0])
       (replicate 480 0))))
     [1 / 2, 1 / 4])))) = 2 \<and>
   take 2 (fft_in (snd (fst (process \<lparr>measure_started = 1, measure_finished = 0\<rparr>
     (snd (fst (process \<lparr>measure_started = 1, measure_finished = 0\<rparr>
       (ctx_after \<lparr>measure_started = 1, measure_finished = 0\<rparr>
         (main_setup (\<lambda>i. 0) (\<lambda>i. 0) 48000) [replicate 480 0, 0 # 1 # replicate 2046 0])
       (replicate 480 0))))
     [1 / 2, 1 / 4])))) = [1 / 2, 1 / 4]"
proof -
  let ?g = "\<lparr>measure_started = 1, measure_finished = 0\<rparr>"
  let ?m = "main_setup (\<lambda>i. 0) (\<lambda>i. 0) 48000"
  let ?xs = "0 # 1 # replicate 2046 (0 :: real)"
  let ?c = "ctx_after ?g ?m [replicate 480 0, ?xs]"
  let ?c' = "snd (fst (process ?g ?c (replicate 480 0)))"
  have h1: "measure_started ?g \<noteq> 0" by simp
  have q: "count_silence c (replicate n 0) = c + of_nat n" for c n
    by (simp add: count_silence_quiet silence_threshold_def)
  note c = bin0_captured [OF h1, of 480 ?xs "\<lambda>i. 0" "\<lambda>i. 0"]
  have b: "current_bin ?c = 0" and f: "fft_in_fill ?c = fft_size" and buf: "fft_in ?c = ?xs"
    and n: "silence_frames_needed ?c = 480" and k: "silence_frames_count ?c = 2046"
    using c by (simp_all add: q silence_threshold_def)
  have ne: "current_bin ?c \<noteq> fft_nbins" by (simp add: b fft_nbins_def fft_size_def)
  have gate: "silence_frames_needed ?c \<le> count_silence (silence_frames_count ?c) (replicate 480 0)"
    by (simp add: n k q)
  have b': "current_bin ?c' = 1"
    using gate_opens [OF h1 ne _ gate] by (simp add: f b)
  then have h2: "current_bin ?c' \<noteq> current_bin ?c" by (simp add: b)
  have nb: "no_bin \<noteq> 0" by (simp add: no_bin_def)
  have nn: "(1 :: 32 word) \<noteq> fft_nbins" by (simp add: fft_nbins_def fft_size_def)
  note t = bin_change_captures_nothing [OF refl h2, of "[1 / 2, 1 / 4]", unfolded Let_def]
  have out: "snd (process ?g ?c (replicate 480 0)) =
      map (\<lambda>i. sin (frac (real i / 2048))) [0..<480]"
    using t by (simp add: b')
  have one: "snd (process ?g ?c (replicate 480 0)) ! 1 = sin (1 / 2048)"
    unfolding out by simp
  have "(1 / 2048 :: real) < pi" using pi_ge_two by simp
  then have pos: "0 < sin (1 / 2048 :: real)" by (intro sin_gt_zero) simp_all
  show ?thesis
    using t out one pos by (simp add: b b' buf nb nn numeral_2_eq_2)
qed

section \<open>The silence gate\<close>

text \<open>
  C4. Start from the context that \<^verbatim>\<open>main\<close> sets up for a non-zero sample rate, with the
  start signal given. (1) When every input sample of every invocation has absolute value
  at least 0.01, the bin index after the invocations is the one before them. (2) The same
  holds later in the sweep, after any invocations \<open>bs0\<close>, for non-empty buffers of such
  samples. (3) Whenever an invocation changes the bin index, the input received since the
  start signal ends with at least \<^verbatim>\<open>silence_frames_needed\<close> consecutive samples of absolute
  value below 0.01.
\<close>

theorem loud_input_never_advances:
  assumes "measure_started g \<noteq> 0" and "sample_rate \<noteq> 0"
  shows "let ctx0 = main_setup mem_in mem_out sample_rate in
     ((\<forall>b\<in>set bs. \<forall>x\<in>set b. 1 / 100 \<le> \<bar>x\<bar>) \<longrightarrow>
        current_bin (ctx_after g ctx0 bs) = current_bin ctx0) \<and>
     ((\<forall>b\<in>set bs. b \<noteq> [] \<and> (\<forall>x\<in>set b. 1 / 100 \<le> \<bar>x\<bar>)) \<longrightarrow>
        current_bin (ctx_after g ctx0 (bs0 @ bs)) = current_bin (ctx_after g ctx0 bs0)) \<and>
     (current_bin (ctx_after g ctx0 (bs @ [b])) \<noteq> current_bin (ctx_after g ctx0 bs) \<longrightarrow>
        (\<exists>pre suf. concat (bs @ [b]) = pre @ suf \<and>
           unat (silence_frames_needed ctx0) \<le> length suf \<and>
           (\<forall>x\<in>set suf. \<bar>x\<bar> < 1 / 100)))"
proof -
  let ?m = "main_setup mem_in mem_out sample_rate"
  let ?quiet = "\<lambda>x :: real. \<bar>x\<bar> < silence_threshold"
  have pos: "silence_frames_needed ?m \<noteq> 0"
    by (rule main_setup_needed_pos [OF assms(2)])
  have one: "current_bin (ctx_after g ?m bs) = current_bin ?m"
    if "\<forall>b\<in>set bs. \<forall>x\<in>set b. 1 / 100 \<le> \<bar>x\<bar>"
  proof (rule loud_run_keeps_bin [OF assms(1) _ that])
    show "silence_frames_count ?m < silence_frames_needed ?m"
      using pos by (simp add: main_setup_fields(7) word_gt_0)
  qed
  have two: "current_bin (ctx_after g ?m (bs0 @ bs)) = current_bin (ctx_after g ?m bs0)"
    if "\<forall>b\<in>set bs. b \<noteq> [] \<and> (\<forall>x\<in>set b. 1 / 100 \<le> \<bar>x\<bar>)"
    unfolding ctx_after_append
  proof (rule loud_nonempty_run_keeps_bin [OF _ _ that])
    show "measure_started (fst (fst (run g ?m bs0))) \<noteq> 0"
      using assms(1) by (simp add: run_started)
    show "silence_frames_needed (ctx_after g ?m bs0) \<noteq> 0"
      using pos by (simp add: ctx_after_needed)
  qed
  have three: "\<exists>pre suf. concat (bs @ [b]) = pre @ suf \<and>
           unat (silence_frames_needed ?m) \<le> length suf \<and> (\<forall>x\<in>set suf. \<bar>x\<bar> < 1 / 100)"
    if ch: "current_bin (ctx_after g ?m (bs @ [b])) \<noteq> current_bin (ctx_after g ?m bs)"
  proof -
    let ?g = "fst (fst (run g ?m bs))" and ?c = "ctx_after g ?m bs"
    let ?s = "concat (bs @ [b])"
    have st: "measure_started ?g \<noteq> 0" using assms(1) by (simp add: run_started)
    have "current_bin (snd (fst (process ?g ?c b))) \<noteq> current_bin ?c"
      using ch by (simp add: ctx_after_snoc)
    from process_bin_changes(4) [OF this]
    have "silence_frames_needed ?c \<le> count_silence (silence_frames_count ?c) b"
      by (simp add: not_less)
    then have "silence_frames_needed ?m \<le> silence_frames_count (ctx_after g ?m (bs @ [b]))"
      by (simp add: ctx_after_snoc process_count [OF st] ctx_after_needed)
    then have "unat (silence_frames_needed ?m)
        \<le> unat (silence_frames_count (ctx_after g ?m (bs @ [b])))"
      by (simp add: word_le_nat_alt)
    also have "\<dots> \<le> length (takeWhile ?quiet (rev ([] @ ?s)))"
      by (rule run_count_trailing [OF assms(1)]) (simp add: main_setup_fields)
    finally have len: "unat (silence_frames_needed ?m) \<le> length (takeWhile ?quiet (rev ?s))"
      by simp
    let ?suf = "rev (takeWhile ?quiet (rev ?s))"
    let ?pre = "rev (dropWhile ?quiet (rev ?s))"
    have "?s = ?pre @ ?suf"
      by (metis rev_append rev_rev_ident takeWhile_dropWhile_id)
    moreover have "\<forall>x\<in>set ?suf. \<bar>x\<bar> < 1 / 100"
      using threshold_below_hundredth by (auto dest: set_takeWhileD)
    ultimately show ?thesis using len by (metis length_rev)
  qed
  show ?thesis
    unfolding Let_def using one two three by blast
qed

theorem loud_input_never_advances_witness:
  "measure_started \<lparr>measure_started = 1, measure_finished = 0\<rparr> \<noteq> 0 \<and>
   (48000 :: 32 word) \<noteq> 0 \<and>
   current_bin (ctx_after \<lparr>measure_started = 1, measure_finished = 0\<rparr>
     (main_setup (\<lambda>i. 0) (\<lambda>i. 0) 48000) [[1], [-1, 1 / 2]]) = no_bin \<and>
   current_bin (ctx_after \<lparr>measure_started = 1, measure_finished = 0\<rparr>
     (main_setup (\<lambda>i. 0) (\<lambda>i. 0) 48000) ([] @ [replicate 480 0])) = 0 \<and>
   (\<exists>pre suf. concat ([] @ [replicate 480 0]) = pre @ suf \<and>
      480 \<le> length suf \<and> (\<forall>x\<in>set suf. \<bar>x :: real\<bar> < 1 / 100))"
proof -
  let ?g = "\<lparr>measure_started = 1, measure_finished = 0\<rparr>"
  let ?m = "main_setup (\<lambda>i. 0) (\<lambda>i. 0) 48000"
  have h1: "measure_started ?g \<noteq> 0" by simp
  have h2: "(48000 :: 32 word) \<noteq> 0" by simp
  have b: "current_bin ?m = no_bin" by (simp add: main_setup_fields)
  have need: "silence_frames_needed ?m = 480" by (simp add: main_setup_fields)
  have gate: "silence_frames_needed ?m \<le> count_silence (silence_frames_count ?m) (replicate 480 0)"
    by (simp add: main_setup_fields count_silence_quiet silence_threshold_def)
  have adv: "current_bin (ctx_after ?g ?m ([] @ [replicate 480 0])) = 0"
    by (simp add: ctx_after_Cons ctx_after_Nil first_gate_opens [OF h1 b gate])
  have loud: "\<forall>b\<in>set [[1], [-1, 1 / 2 :: real]]. \<forall>x\<in>set b. 1 / 100 \<le> \<bar>x\<bar>" by simp
  have ch: "current_bin (ctx_after ?g ?m ([] @ [replicate 480 0])) \<noteq> current_bin (ctx_after ?g ?m [])"
    unfolding adv by (simp add: ctx_after_Nil b no_bin_def)
  note t = loud_input_never_advances [OF h1 h2, of "\<lambda>i. 0" "\<lambda>i. 0", unfolded Let_def]
  have "current_bin (ctx_after ?g ?m [[1], [-1, 1 / 2]]) = current_bin ?m"
    using t [of "[[1], [-1, 1 / 2]]" "[]" "[]", THEN conjunct1] loud by blast
  moreover have "\<exists>pre suf. concat ([] @ [replicate 480 0]) = pre @ suf \<and>
      unat (silence_frames_needed ?m) \<le> length suf \<and> (\<forall>x\<in>set suf. \<bar>x :: real\<bar> < 1 / 100)"
    using t [of "[]" "[]" "replicate 480 0", THEN conjunct2, THEN conjunct2] ch by blast
  ultimately show ?thesis
    using adv by (simp add: b need)
qed

text \<open>
  C5. In every context reachable from \<^verbatim>\<open>main\<close>, \<^verbatim>\<open>silence_frames_needed\<close> is the ceiling of
  0.010 times \<^verbatim>\<open>sample_rate\<close>, the \<^verbatim>\<open>float\<close> of line 135; for a rate of at most \<open>2 ^ 24\<close>
  that \<^verbatim>\<open>float\<close> is the rate itself. At every gate, the one in front of bin 0 (no bin
  selected) and the one after a full capture buffer alike, the bin index moves on by one
  exactly when the silence counter, updated with the input of the invocation, has reached
  that value.
\<close>

theorem gate_value_everywhere:
  assumes "measure_started g \<noteq> 0"
    and "ctx = ctx_after g0 (main_setup mem_in mem_out jack_rate) bs"
    and "current_bin ctx \<noteq> fft_nbins"
    and "current_bin ctx = no_bin \<or> fft_in_fill ctx = fft_size"
  shows "let needed = nat \<lceil>0.010 * real (narrow_to_float (unat jack_rate))\<rceil> in
     unat (silence_frames_needed ctx) = needed \<and>
     (unat jack_rate \<le> 2 ^ 24 \<longrightarrow> needed = nat \<lceil>0.010 * real (unat jack_rate)\<rceil>) \<and>
     current_bin (snd (fst (process g ctx input))) =
       (if needed \<le> unat (count_silence (silence_frames_count ctx) input)
        then current_bin ctx + 1 else current_bin ctx)"
proof -
  let ?v = "nat \<lceil>0.010 * real (narrow_to_float (unat jack_rate))\<rceil>"
  have n: "unat (silence_frames_needed ctx) = ?v"
    unfolding assms(2) ctx_after_needed by (rule main_setup_needed)
  have exact: "?v = nat \<lceil>0.010 * real (unat jack_rate)\<rceil>" if "unat jack_rate \<le> 2 ^ 24"
    by (simp only: narrow_exact [OF that])
  have bin: "current_bin (snd (fst (process g ctx input))) =
       (if ?v \<le> unat (count_silence (silence_frames_count ctx) input)
        then current_bin ctx + 1 else current_bin ctx)"
  proof (cases "count_silence (silence_frames_count ctx) input < silence_frames_needed ctx")
    case True
    then have "\<not> ?v \<le> unat (count_silence (silence_frames_count ctx) input)"
      unfolding n [symmetric] by (simp add: word_less_nat_alt)
    then show ?thesis
      using process_gate_closed [OF True, of g] by simp
  next
    case False
    then have "?v \<le> unat (count_silence (silence_frames_count ctx) input)"
      unfolding n [symmetric] by (simp add: word_less_nat_alt)
    then show ?thesis
      by (simp add: process_advance [OF assms(1,3,4) False])
  qed
  show ?thesis
    unfolding Let_def using n exact bin by blast
qed

theorem gate_value_everywhere_witness:
  "measure_started \<lparr>measure_started = 1, measure_finished = 0\<rparr> \<noteq> 0 \<and>
   unat (silence_frames_needed (main_setup (\<lambda>i. 0) (\<lambda>i. 0) 48000)) = 480 \<and>
   current_bin (main_setup (\<lambda>i. 0) (\<lambda>i. 0) 48000) = no_bin \<and>
   current_bin (snd (fst (process \<lparr>measure_started = 1, measure_finished = 0\<rparr>
       (main_setup (\<lambda>i. 0) (\<lambda>i. 0) 48000) (replicate 479 0)))) = no_bin \<and>
   current_bin (snd (fst (process \<lparr>measure_started = 1, measure_finished = 0\<rparr>
       (main_setup (\<lambda>i. 0) (\<lambda>i. 0) 48000) (replicate 480 0)))) = 0 \<and>
   current_bin (ctx_after \<lparr>measure_started = 1, measure_finished = 0\<rparr>
     (main_setup (\<lambda>i. 0) (\<lambda>i. 0) 48000) [replicate 480 0, 0 # 1 # replicate 2046 0]) = 0 \<and>
   fft_in_fill (ctx_after \<lparr>measure_started = 1, measure_finished = 0\<rparr>
     (main_setup (\<lambda>i. 0) (\<lambda>i. 0) 48000) [replicate 480 0, 0 # 1 # replicate 2046 0])
     = fft_size \<and>
   silence_frames_count (ctx_after \<lparr>measure_started = 1, measure_finished = 0\<rparr>
     (main_setup (\<lambda>i. 0) (\<lambda>i. 0) 48000) [replicate 480 0, 0 # 1 # replicate 2046 0])
     = 2046 \<and>
   current_bin (snd (fst (process \<lparr>measure_started = 1, measure_finished = 0\<rparr>
     (ctx_after \<lparr>measure_started = 1, measure_finished = 0\<rparr>
       (main_setup (\<lambda>i. 0) (\<lambda>i. 0) 48000) [replicate 480 0, 0 # 1 # replicate 2046 0])
     (replicate 479 0 @ [1])))) = 0 \<and>
   current_bin (snd (fst (process \<lparr>measure_started = 1, measure_finished = 0\<rparr>
     (ctx_after \<lparr>measure_started = 1, measure_finished = 0\<rparr>
       (main_setup (\<lambda>i. 0) (\<lambda>i. 0) 48000) [replicate 480 0, 0 # 1 # replicate 2046 0])
     (1 # replicate 479 0)))) = 0 \<and>
   current_bin (snd (fst (process \<lparr>measure_started = 1, measure_finished = 0\<rparr>
     (ctx_after \<lparr>measure_started = 1, measure_finished = 0\<rparr>
       (main_setup (\<lambda>i. 0) (\<lambda>i. 0) 48000) [replicate 480 0, 0 # 1 # replicate 2046 0])
     (1 # replicate 480 0)))) = 1 \<and>
   unat (silence_frames_needed (main_setup (\<lambda>i. 0) (\<lambda>i. 0) 16777301)) = 167773"
proof -
  let ?g = "\<lparr>measure_started = 1, measure_finished = 0\<rparr>"
  let ?m = "main_setup (\<lambda>i. 0) (\<lambda>i. 0) 48000"
  let ?w = "main_setup (\<lambda>i. 0) (\<lambda>i. 0) 16777301"
  let ?xs = "0 # 1 # replicate 2046 (0 :: real)"
  let ?c = "ctx_after ?g ?m [replicate 480 0, ?xs]"
  have h1: "measure_started ?g \<noteq> 0" by simp
  have q: "count_silence c (replicate n 0) = c + of_nat n" for c n
    by (simp add: count_silence_quiet silence_threshold_def)
  have "narrow_to_float (unat (48000 :: 32 word)) = 48000" by simp
  then have v: "nat \<lceil>0.010 * real (narrow_to_float (unat (48000 :: 32 word)))\<rceil> = 480"
    by (simp only:) simp
  \<comment> \<open>the gate in front of bin 0\<close>
  have h2: "?m = ctx_after ?g ?m []" by (simp add: ctx_after_Nil)
  have b: "current_bin ?m = no_bin" by (simp add: main_setup_fields)
  have h3: "current_bin ?m \<noteq> fft_nbins" by (simp add: b no_bin_neq_nbins)
  have h4: "current_bin ?m = no_bin \<or> fft_in_fill ?m = fft_size" by (simp add: b)
  have k0: "silence_frames_count ?m = 0" by (simp add: main_setup_fields)
  note t0 = gate_value_everywhere [OF h1 h2 h3 h4, unfolded Let_def v]
  have need: "unat (silence_frames_needed ?m) = 480"
    using t0 [of "[]"] by blast
  have m_bin: "current_bin (snd (fst (process ?g ?m input))) =
       (if 480 \<le> unat (count_silence (silence_frames_count ?m) input)
        then current_bin ?m + 1 else current_bin ?m)" for input
    using t0 [of input] by blast
  have m1: "count_silence (silence_frames_count ?m) (replicate 479 0) = 479"
    "count_silence (silence_frames_count ?m) (replicate 480 0) = 480"
    by (simp_all add: k0 q)
  have first: "current_bin (snd (fst (process ?g ?m (replicate 479 0)))) = no_bin"
    "current_bin (snd (fst (process ?g ?m (replicate 480 0)))) = 0"
    unfolding m_bin m1 by (simp_all add: b no_bin_def)
  \<comment> \<open>the gate after the capture of bin 0\<close>
  note c = bin0_captured [OF h1, of 480 ?xs "\<lambda>i. 0" "\<lambda>i. 0"]
  have cb: "current_bin ?c = 0" and cf: "fft_in_fill ?c = fft_size"
    and ck: "silence_frames_count ?c = 2046"
    using c by (simp_all add: q silence_threshold_def)
  have c3: "current_bin ?c \<noteq> fft_nbins" by (simp add: cb fft_nbins_def fft_size_def)
  have c4: "current_bin ?c = no_bin \<or> fft_in_fill ?c = fft_size" by (simp add: cf)
  note t1 = gate_value_everywhere [OF h1 refl c3 c4, unfolded Let_def v]
  have c_bin: "current_bin (snd (fst (process ?g ?c input))) =
       (if 480 \<le> unat (count_silence (silence_frames_count ?c) input)
        then current_bin ?c + 1 else current_bin ?c)" for input
    using t1 [of input] by blast
  have k1: "count_silence (silence_frames_count ?c) (replicate 479 0 @ [1]) = 0"
    "count_silence (silence_frames_count ?c) (1 # replicate 479 0) = 479"
    "count_silence (silence_frames_count ?c) (1 # replicate 480 0) = 480"
    by (simp_all add: ck count_silence_append q silence_threshold_def)
  have second: "current_bin (snd (fst (process ?g ?c (replicate 479 0 @ [1])))) = 0"
    "current_bin (snd (fst (process ?g ?c (1 # replicate 479 0)))) = 0"
    "current_bin (snd (fst (process ?g ?c (1 # replicate 480 0)))) = 1"
    unfolding c_bin k1 by (simp_all add: cb)
  \<comment> \<open>a rate that the float does not hold\<close>
  have w2: "?w = ctx_after ?g ?w []" by (simp add: ctx_after_Nil)
  have wb: "current_bin ?w = no_bin" by (simp add: main_setup_fields)
  have w3: "current_bin ?w \<noteq> fft_nbins" by (simp add: wb no_bin_neq_nbins)
  have w4: "current_bin ?w = no_bin \<or> fft_in_fill ?w = fft_size" by (simp add: wb)
  have "narrow_to_float (unat (16777301 :: 32 word)) = 16777300"
    by (simp add: narrow_16777301)
  then have u: "nat \<lceil>0.010 * real (narrow_to_float (unat (16777301 :: 32 word)))\<rceil> = 167773"
    by (simp only:) simp
  have third: "unat (silence_frames_needed ?w) = 167773"
    using gate_value_everywhere [OF h1 w2 w3 w4, of "[]", unfolded Let_def u] by blast
  show ?thesis
    using h1 need b first cb cf ck second third by blast
qed

section \<open>The result file\<close>

text \<open>
  C6. For a non-zero sample rate the file gets exactly 1025 lines; line \<open>i\<close> holds the
  frequency \<open>i * fs / N\<close>, the amplitude \<open>|response[i]| / N\<close> and the phase
  \<open>arg(response[i])\<close> of bin \<open>i\<close>, so the lines are in bin order; the frequencies are
  strictly increasing, the first is 0 and the last is \<open>fs / 2\<close>.
\<close>

theorem result_file_lines:
  assumes "sample_rate \<noteq> 0"
  shows "let out = write_response sample_rate resp;
             fs = real (unat sample_rate)
         in length out = 1025 \<and>
            (\<forall>i<1025. out ! i = (real i * fs / 2048, cmod (resp ! i) / 2048, Arg (resp ! i))) \<and>
            sorted_wrt (<) (map fst out) \<and>
            fst (hd out) = 0 \<and>
            fst (last out) = fs / 2"
proof -
  let ?fs = "real (unat sample_rate)"
  let ?line = "\<lambda>i. (real i * (?fs / 2048), cmod (resp ! i) / 2048, Arg (resp ! i))"
  have pos: "0 < ?fs" using assms by (simp add: unat_gt_0)
  have ne: "[0..<1025] \<noteq> []" by simp
  have len: "length (map ?line [0..<1025]) = 1025" by simp
  have nth: "map ?line [0..<1025] ! i = (real i * ?fs / 2048, cmod (resp ! i) / 2048, Arg (resp ! i))"
    if "i < 1025" for i
    using that by simp
  have incr: "sorted_wrt (<) (map fst (map ?line [0..<1025]))"
    using pos by (simp add: sorted_wrt_iff_nth_less o_def)
  have "hd [0..<1025] = (0 :: nat)"
    by (rule hd_upt) simp
  then have first: "fst (hd (map ?line [0..<1025])) = 0"
    by (simp add: hd_map [OF ne])
  have "last [0..<1025] = 1024"
    using last_upt [of 0 1025] by simp
  then have final: "fst (last (map ?line [0..<1025])) = ?fs / 2"
    by (simp add: last_map [OF ne])
  show ?thesis
    unfolding Let_def write_response_map
    using len nth incr first final by blast
qed

theorem result_file_lines_witness:
  "(48000 :: 32 word) \<noteq> 0 \<and>
   length (write_response 48000 (replicate 1025 0)) = 1025 \<and>
   write_response 48000 (replicate 1025 0) ! 1 = (375 / 16, 0, 0) \<and>
   fst (last (write_response 48000 (replicate 1025 0))) = 24000"
proof -
  have h: "(48000 :: 32 word) \<noteq> 0" by simp
  from result_file_lines [OF h, of "replicate 1025 0", unfolded Let_def]
  show ?thesis by (simp add: Arg_zero)
qed

section \<open>The response slot is stored again while the gate is closed\<close>

text \<open>
  C2 asks for one store per bin. The source stores again: at 48 kHz, after 480 quiet
  samples and a capture buffer that holds one pulse, every further invocation with a loud
  sample windows the buffer once more, transforms it and overwrites \<^verbatim>\<open>response[0]\<close>. The
  slot holds \<open>window 1\<close> after the first such invocation and its square after the second.
\<close>

theorem response_stored_twice:
  "response (ctx_after \<lparr>measure_started = 1, measure_finished = 0\<rparr>
      (main_setup (\<lambda>i. 0) (\<lambda>i. 0) 48000)
      [replicate 480 0, 0 # 1 # replicate 2046 0]) ! 0 = 0 \<and>
   response (ctx_after \<lparr>measure_started = 1, measure_finished = 0\<rparr>
      (main_setup (\<lambda>i. 0) (\<lambda>i. 0) 48000)
      [replicate 480 0, 0 # 1 # replicate 2046 0, [1]]) ! 0 = complex_of_real (window 1) \<and>
   response (ctx_after \<lparr>measure_started = 1, measure_finished = 0\<rparr>
      (main_setup (\<lambda>i. 0) (\<lambda>i. 0) 48000)
      [replicate 480 0, 0 # 1 # replicate 2046 0, [1], [1]]) ! 0 =
     complex_of_real (window 1 * window 1) \<and>
   0 < window 1 \<and> window 1 * window 1 < window 1"
proof -
  let ?g = "\<lparr>measure_started = 1, measure_finished = 0\<rparr>"
  let ?m = "main_setup (\<lambda>i. 0) (\<lambda>i. 0) 48000"
  let ?xs = "0 # 1 # replicate 2046 (0 :: real)"
  let ?b2 = "[replicate 480 0, ?xs]"
  let ?b3 = "[replicate 480 0, ?xs, [1]]"
  let ?c2 = "ctx_after ?g ?m ?b2"
  let ?c3 = "ctx_after ?g ?m ?b3"
  have h1: "measure_started ?g \<noteq> 0" by simp
  have st: "measure_started (fst (fst (run ?g ?m bs))) \<noteq> 0" for bs
    by (simp only: run_started) simp
  note c2 = bin0_captured [OF h1, of 480 ?xs "\<lambda>i. 0" "\<lambda>i. 0"]
  have r2: "response ?c2 ! 0 = 0" using c2 by simp
  have e3: "?c3 = snd (fst (process (fst (fst (run ?g ?m ?b2))) ?c2 [1]))"
    using ctx_after_snoc [of ?g ?m ?b2 "[1]"] by simp
  have e4: "ctx_after ?g ?m [replicate 480 0, ?xs, [1], [1]] =
      snd (fst (process (fst (fst (run ?g ?m ?b3))) ?c3 [1]))"
    using ctx_after_snoc [of ?g ?m ?b3 "[1]"] by simp
  have p2: "fft_in ?c2 ! j = (if j = 1 then 1 else 0)" if "j < 2048" for j
    using c2 that by (simp add: pulse_nth)
  have l2: "current_bin ?c2 = 0" "fft_in_fill ?c2 = fft_size" "length (fft_in ?c2) = 2048"
    "length (response ?c2) = 1025" "silence_frames_needed ?c2 = 480"
    using c2 by simp_all
  note c3 = pulse_transformed [OF st [of ?b2] l2 p2, folded e3]
  have r3: "response ?c3 ! 0 = complex_of_real (window 1)" using c3(1) by simp
  note c4 = pulse_transformed [OF st [of ?b3] c3(3-7) c3(2), folded e4]
  have r4: "response (ctx_after ?g ?m [replicate 480 0, ?xs, [1], [1]]) ! 0 =
      complex_of_real (window 1 * window 1)"
    using c4(1) by simp
  have "window 1 * window 1 < window 1 * 1"
    using window_one_range by (intro mult_strict_left_mono) simp_all
  then show ?thesis using r2 r3 r4 window_one_range by simp
qed

section \<open>Buffer boundaries\<close>

text \<open>
  C1, as the specification states it, fails: the gate is tested once per invocation and the
  invocation that opens it captures nothing, so the samples that reach the capture buffer
  depend on where the buffers end. At 48 kHz, take 481 samples of 0, one sample of 1 and
  4097 samples of 0. Split as 480 + 2048 + 2051 and as 482 + 2048 + 2048 + 1, both runs
  finish bin 0 and select bin 1, the first with \<open>window 1\<close> in \<^verbatim>\<open>response[0]\<close>, the second
  with 0.
\<close>

theorem response_depends_on_buffer_lengths:
  "concat [replicate 480 0, 0 # 1 # replicate 2046 0, replicate 2051 0] =
   concat [replicate 481 0 @ [1], replicate 2048 0, replicate 2048 0, [0 :: real]] \<and>
   current_bin (ctx_after \<lparr>measure_started = 1, measure_finished = 0\<rparr>
      (main_setup (\<lambda>i. 0) (\<lambda>i. 0) 48000)
      [replicate 480 0, 0 # 1 # replicate 2046 0, replicate 2051 0]) = 1 \<and>
   current_bin (ctx_after \<lparr>measure_started = 1, measure_finished = 0\<rparr>
      (main_setup (\<lambda>i. 0) (\<lambda>i. 0) 48000)
      [replicate 481 0 @ [1], replicate 2048 0, replicate 2048 0, [0]]) = 1 \<and>
   response (ctx_after \<lparr>measure_started = 1, measure_finished = 0\<rparr>
      (main_setup (\<lambda>i. 0) (\<lambda>i. 0) 48000)
      [replicate 480 0, 0 # 1 # replicate 2046 0, replicate 2051 0]) ! 0 \<noteq>
   response (ctx_after \<lparr>measure_started = 1, measure_finished = 0\<rparr>
      (main_setup (\<lambda>i. 0) (\<lambda>i. 0) 48000)
      [replicate 481 0 @ [1], replicate 2048 0, replicate 2048 0, [0]]) ! 0"
proof -
  let ?g = "\<lparr>measure_started = 1, measure_finished = 0\<rparr>"
  let ?m = "main_setup (\<lambda>i. 0) (\<lambda>i. 0) 48000"
  let ?G = "\<lambda>bs. fst (fst (run ?g ?m bs))"
  let ?C = "\<lambda>bs. ctx_after ?g ?m bs"
  let ?xs = "0 # 1 # replicate 2046 (0 :: real)"
  let ?z = "replicate 2048 (0 :: real)"
  have h1: "measure_started ?g \<noteq> 0" by simp
  have st: "measure_started (?G bs) \<noteq> 0" for bs
    by (simp only: run_started) simp
  have snoc: "?C (bs @ [b]) = snd (fst (process (?G bs) (?C bs) b))" for bs b
    by (rule ctx_after_snoc)
  have q: "count_silence c (replicate n 0) = c + of_nat n" for c n
    by (simp add: count_silence_quiet silence_threshold_def)
  \<comment> \<open>the stream\<close>
  have r1: "replicate 481 (0 :: real) = replicate 480 0 @ [0]"
    using replicate_add [of 480 1 "0 :: real"] by simp
  have r2: "replicate 2046 (0 :: real) @ replicate 2051 0 = replicate 4097 0"
    using replicate_add [of 2046 2051 "0 :: real"] by simp
  have r3: "?z @ ?z @ [0] = replicate 4097 0"
    using replicate_add [of 2048 2049 "0 :: real"] replicate_add [of 2048 1 "0 :: real"]
    by simp
  have stream: "concat [replicate 480 0, ?xs, replicate 2051 0] =
      concat [replicate 481 0 @ [1], ?z, ?z, [0 :: real]]"
    by (simp add: r1 r2 r3)
  \<comment> \<open>480 + 2048 + 2051\<close>
  let ?a2 = "[replicate 480 0, ?xs]"
  note a2 = bin0_captured [OF h1, of 480 ?xs "\<lambda>i. 0" "\<lambda>i. 0"]
  have pa: "fft_in (?C ?a2) ! j = (if j = 1 then 1 else 0)" if "j < 2048" for j
    using a2 that by (simp add: pulse_nth)
  have la: "current_bin (?C ?a2) = 0" "fft_in_fill (?C ?a2) = fft_size"
    "length (fft_in (?C ?a2)) = 2048" "length (response (?C ?a2)) = 1025"
    using a2 by simp_all
  have ca: "silence_frames_count (?C ?a2) = 2046" "silence_frames_needed (?C ?a2) = 480"
    using a2 by (simp_all add: q silence_threshold_def)
  have e3: "?C [replicate 480 0, ?xs, replicate 2051 0] =
      snd (fst (process (?G ?a2) (?C ?a2) (replicate 2051 0)))"
    using snoc [of ?a2 "replicate 2051 0"] by simp
  have left: "response (?C [replicate 480 0, ?xs, replicate 2051 0]) ! 0 =
      complex_of_real (window 1)"
    unfolding e3 using pulse_response [OF st [of ?a2] la pa, of "replicate 2051 0"] by simp
  have left_bin: "current_bin (?C [replicate 480 0, ?xs, replicate 2051 0]) = 1"
    unfolding e3
    by (subst gate_opens [OF st [of ?a2]])
       (simp_all add: la ca q fft_nbins_def fft_size_def)
  \<comment> \<open>482 + 2048 + 2048 + 1\<close>
  let ?b1 = "replicate 481 0 @ [1 :: real]"
  let ?d1 = "?m\<lparr>silence_frames_count := 0\<rparr>"
  let ?d2 = "?m\<lparr>silence_frames_count := 2048, current_bin := 0, fft_in_fill := 0,
      oscillator_phase := (advance_phase 0 ^^ 2048) 0\<rparr>"
  have k1: "count_silence 0 ?b1 = 0"
    by (simp add: count_silence_append silence_threshold_def)
  have "process ?g ?m ?b1 = ((?g, transform ?d1), replicate (length ?b1) 0)"
    using process_wait [OF h1, of ?m ?b1]
    by (simp add: k1 main_setup_fields no_bin_neq_nbins)
  then have s1: "?C [?b1] = ?d1"
    by (simp add: ctx_after_Cons ctx_after_Nil transform_skips main_setup_fields)
  have gate: "silence_frames_needed ?d1 \<le> count_silence (silence_frames_count ?d1) ?z"
    by (simp add: main_setup_fields q)
  have s2: "?C [?b1, ?z] = ?d2"
    using snoc [of "[?b1]" ?z] first_gate_opens [OF st [of "[?b1]"] _ gate]
    by (simp add: s1 main_setup_fields q)
  have d2: "current_bin ?d2 \<noteq> fft_nbins" "current_bin ?d2 \<noteq> no_bin" "fft_in_fill ?d2 = 0"
    "length (fft_in ?d2) = 2048" "length ?z = 2048"
    by (simp_all add: fft_nbins_def fft_size_def no_bin_def main_setup_fields)
  have e3b: "?C [?b1, ?z, ?z] = snd (fst (process (?G [?b1, ?z]) ?d2 ?z))"
    using snoc [of "[?b1, ?z]" ?z] by (simp add: s2)
  note w = whole_capture [OF st [of "[?b1, ?z]"] d2, folded e3b]
  have pb: "fft_in (?C [?b1, ?z, ?z]) ! j = (if j = 1 then 0 else 0)" if "j < 2048" for j
    using that by (simp add: w(1))
  have lb: "current_bin (?C [?b1, ?z, ?z]) = 0" "fft_in_fill (?C [?b1, ?z, ?z]) = fft_size"
    "length (fft_in (?C [?b1, ?z, ?z])) = 2048" "length (response (?C [?b1, ?z, ?z])) = 1025"
    by (simp_all add: w main_setup_fields)
  have cb: "silence_frames_count (?C [?b1, ?z, ?z]) = 4096"
    "silence_frames_needed (?C [?b1, ?z, ?z]) = 480"
    by (simp_all add: w q main_setup_fields)
  have e4: "?C [?b1, ?z, ?z, [0]] =
      snd (fst (process (?G [?b1, ?z, ?z]) (?C [?b1, ?z, ?z]) [0]))"
    using snoc [of "[?b1, ?z, ?z]" "[0]"] by simp
  have right: "response (?C [?b1, ?z, ?z, [0]]) ! 0 = 0"
    unfolding e4 using pulse_response [OF st [of "[?b1, ?z, ?z]"] lb pb, of "[0]"] by simp
  have right_bin: "current_bin (?C [?b1, ?z, ?z, [0]]) = 1"
    unfolding e4
    by (subst gate_opens [OF st [of "[?b1, ?z, ?z]"]])
       (simp_all add: lb cb silence_threshold_def fft_nbins_def fft_size_def)
  have "complex_of_real (window 1) \<noteq> 0"
    using window_one_range by simp
  then show ?thesis
    using stream left right left_bin right_bin by simp
qed

text \<open>
  C1, amended. While a bin is being captured, the buffer boundaries do not matter: take a
  context with a bin selected, and samples that fit in the free part of its capture buffer.
  Fed as non-empty buffers in any two ways, they lead to the same globals and context
  (capture buffer, fill, phase, silence counter, response table) and to the same output
  samples; after any common continuation the response table is the same.
\<close>

theorem capture_chunk_independent:
  assumes "measure_started g \<noteq> 0" and "current_bin ctx \<noteq> fft_nbins"
    and "current_bin ctx \<noteq> no_bin"
    and "unat (fft_in_fill ctx) + length (concat bs1) \<le> 2048"
    and "concat bs1 = concat bs2" and "[] \<notin> set bs1" and "[] \<notin> set bs2"
  shows "fst (run g ctx bs1) = fst (run g ctx bs2) \<and>
         concat (snd (run g ctx bs1)) = concat (snd (run g ctx bs2)) \<and>
         (\<forall>cs. response (ctx_after g ctx (bs1 @ cs)) = response (ctx_after g ctx (bs2 @ cs)))"
proof -
  have both: "fst (run g ctx bs1) = fst (run g ctx bs2) \<and>
      concat (snd (run g ctx bs1)) = concat (snd (run g ctx bs2))"
  proof (cases "bs1 = []")
    case True
    then have "concat bs2 = []" using assms(5) by simp
    then have "bs2 = []" using assms(7) by (cases bs2) auto
    with True show ?thesis by simp
  next
    case False
    then have "concat bs1 \<noteq> []" using assms(6) by (cases bs1) auto
    then have ne2: "bs2 \<noteq> []" using assms(5) by auto
    have room2: "unat (fft_in_fill ctx) + length (concat bs2) \<le> 2048"
      using assms(4) by (simp add: assms(5))
    show ?thesis
      using capture_run_concat [OF assms(1-4) assms(6) False]
        capture_run_concat [OF assms(1-3) room2 assms(7) ne2]
      by (simp add: assms(5))
  qed
  then have "fst (run g ctx (bs1 @ cs)) = fst (run g ctx (bs2 @ cs))" for cs
    by (simp add: run_append)
  then show ?thesis
    using both by (simp add: ctx_after_def)
qed

theorem capture_chunk_independent_witness:
  "measure_started \<lparr>measure_started = 1, measure_finished = 0\<rparr> \<noteq> 0 \<and>
   current_bin (ctx_after \<lparr>measure_started = 1, measure_finished = 0\<rparr>
     (main_setup (\<lambda>i. 0) (\<lambda>i. 0) 48000) [replicate 480 0]) = 0 \<and>
   fft_in_fill (ctx_after \<lparr>measure_started = 1, measure_finished = 0\<rparr>
     (main_setup (\<lambda>i. 0) (\<lambda>i. 0) 48000) [replicate 480 0]) = 0 \<and>
   concat [[1], [1 / 2, 1 / 4]] = concat [[1, 1 / 2], [1 / 4 :: real]] \<and>
   fst (run \<lparr>measure_started = 1, measure_finished = 0\<rparr>
      (ctx_after \<lparr>measure_started = 1, measure_finished = 0\<rparr>
        (main_setup (\<lambda>i. 0) (\<lambda>i. 0) 48000) [replicate 480 0])
      [[1], [1 / 2, 1 / 4]]) =
   fst (run \<lparr>measure_started = 1, measure_finished = 0\<rparr>
      (ctx_after \<lparr>measure_started = 1, measure_finished = 0\<rparr>
        (main_setup (\<lambda>i. 0) (\<lambda>i. 0) 48000) [replicate 480 0])
      [[1, 1 / 2], [1 / 4]])"
proof -
  let ?g = "\<lparr>measure_started = 1, measure_finished = 0\<rparr>"
  let ?m = "main_setup (\<lambda>i. 0) (\<lambda>i. 0) 48000"
  let ?c = "ctx_after ?g ?m [replicate 480 0]"
  have h1: "measure_started ?g \<noteq> 0" by simp
  have b: "current_bin ?m = no_bin" by (simp add: main_setup_fields)
  have gate: "silence_frames_needed ?m \<le> count_silence (silence_frames_count ?m) (replicate 480 0)"
    by (simp add: main_setup_fields count_silence_quiet silence_threshold_def)
  have c: "current_bin ?c = 0" "fft_in_fill ?c = 0"
    by (simp_all add: ctx_after_Cons ctx_after_Nil first_gate_opens [OF h1 b gate])
  have h2: "current_bin ?c \<noteq> fft_nbins" by (simp add: c fft_nbins_def fft_size_def)
  have h3: "current_bin ?c \<noteq> no_bin" by (simp add: c no_bin_def)
  have h4: "unat (fft_in_fill ?c) + length (concat [[1], [1 / 2, 1 / 4 :: real]]) \<le> 2048"
    by (simp add: c)
  have h5: "concat [[1], [1 / 2, 1 / 4]] = concat [[1, 1 / 2], [1 / 4 :: real]]" by simp
  have h6: "[] \<notin> set [[1], [1 / 2, 1 / 4 :: real]]" by simp
  have h7: "[] \<notin> set [[1, 1 / 2], [1 / 4 :: real]]" by simp
  from capture_chunk_independent [OF h1 h2 h3 h4 h5 h6 h7]
  show ?thesis using c h5 by simp
qed

end
